theory Spec2Isabelle
  imports Main "HOL-Library.AList" "HOL-Library.Sublist"
begin

section \<open>The file system below the base path\<close>

text \<open>
  Both scripts (\<^verbatim>\<open>clean.py\<close> and \<^verbatim>\<open>restructure_project.py\<close>) only act on paths of the
  form \<^verbatim>\<open>self.base_path / c1 / ... / cn\<close>. A path is the list of its components below the
  base path; \<open>[]\<close> is the base path itself. The file system is an association list from
  paths to nodes: a regular file with its bytes, or a directory. An entry is only
  reachable when every proper prefix of its path is a directory (\<open>check_dirs\<close>), as the
  operating system resolves a path component by component; unreachable entries are
  invisible to every operation. Symbolic links, permissions, time stamps and the text
  printed to standard output are not part of the model, and the ancestors of the base
  path are taken to be existing directories.
\<close>

type_synonym path = "string list"

datatype node = File string | Dir

type_synonym fs = "(path \<times> node) list"

datatype error =
  FileNotFoundError | FileExistsError | NotADirectoryError | IsADirectoryError | SameFileError

text \<open>
  A method that mutates the file system and may raise: the state at the moment of the
  return or of the raise, with the exception if there is one.
\<close>

type_synonym action = "fs \<Rightarrow> error option \<times> fs"

definition lookup :: "fs \<Rightarrow> path \<Rightarrow> node option" where
  "lookup fs p = map_of fs p"

text \<open>
  Path resolution: \<open>check_dirs fs pre cs\<close> walks from the resolved prefix \<open>pre\<close> through
  the components \<open>cs\<close> and checks that every path it leaves behind is a directory
  (ENOENT for a missing one, ENOTDIR for a regular file).
\<close>

fun check_dirs :: "fs \<Rightarrow> path \<Rightarrow> path \<Rightarrow> error option" where
  "check_dirs fs pre [] = None"
| "check_dirs fs pre (c # cs) =
     (case lookup fs pre of
        None \<Rightarrow> Some FileNotFoundError
      | Some (File b) \<Rightarrow> Some NotADirectoryError
      | Some Dir \<Rightarrow> check_dirs fs (pre @ [c]) cs)"

definition parent_error :: "fs \<Rightarrow> path \<Rightarrow> error option" where
  "parent_error fs p = check_dirs fs [] p"

definition stat :: "fs \<Rightarrow> path \<Rightarrow> error + node" where
  "stat fs p =
     (case parent_error fs p of
        Some e \<Rightarrow> Inl e
      | None \<Rightarrow> (case lookup fs p of None \<Rightarrow> Inl FileNotFoundError | Some n \<Rightarrow> Inr n))"

text \<open>\<^verbatim>\<open>Path.exists\<close>, \<^verbatim>\<open>Path.is_dir\<close>, \<^verbatim>\<open>Path.is_file\<close>: a failing stat is \<open>False\<close>.\<close>

definition path_exists :: "fs \<Rightarrow> path \<Rightarrow> bool" where
  "path_exists fs p = (case stat fs p of Inl e \<Rightarrow> False | Inr n \<Rightarrow> True)"

definition is_dir :: "fs \<Rightarrow> path \<Rightarrow> bool" where
  "is_dir fs p = (case stat fs p of Inr Dir \<Rightarrow> True | _ \<Rightarrow> False)"

definition is_file :: "fs \<Rightarrow> path \<Rightarrow> bool" where
  "is_file fs p = (case stat fs p of Inr (File b) \<Rightarrow> True | _ \<Rightarrow> False)"

text \<open>The bytes of a regular file, \<open>None\<close> when the path is not a regular file.\<close>

definition read_bytes :: "fs \<Rightarrow> path \<Rightarrow> string option" where
  "read_bytes fs p = (case stat fs p of Inr (File b) \<Rightarrow> Some b | _ \<Rightarrow> None)"

subsection \<open>Sequencing\<close>

definition seq :: "action \<Rightarrow> action \<Rightarrow> action" where
  "seq f g fs = (case f fs of (None, fs') \<Rightarrow> g fs' | (Some e, fs') \<Rightarrow> (Some e, fs'))"

text \<open>A \<^verbatim>\<open>for\<close> loop: the first exception leaves the loop with the state reached.\<close>

fun for_each :: "'a list \<Rightarrow> ('a \<Rightarrow> action) \<Rightarrow> action" where
  "for_each [] body fs = (None, fs)"
| "for_each (x # xs) body fs =
     (case body x fs of (None, fs') \<Rightarrow> for_each xs body fs' | (Some e, fs') \<Rightarrow> (Some e, fs'))"

subsection \<open>The library calls the scripts make\<close>

text \<open>\<^verbatim>\<open>os.mkdir\<close>: the parent must be a directory and the path must not exist.\<close>

definition os_mkdir :: "path \<Rightarrow> action" where
  "os_mkdir p fs =
     (case parent_error fs p of
        Some e \<Rightarrow> (Some e, fs)
      | None \<Rightarrow>
          (case lookup fs p of
             Some n \<Rightarrow> (Some FileExistsError, fs)
           | None \<Rightarrow> (None, AList.update p Dir fs)))"

text \<open>
  \<^verbatim>\<open>Path.mkdir(parents, exist_ok)\<close> of pathlib: on \<^verbatim>\<open>FileNotFoundError\<close> it creates the
  parent with \<^verbatim>\<open>parents=True, exist_ok=True\<close> and retries without \<^verbatim>\<open>parents\<close>; on any
  other \<^verbatim>\<open>OSError\<close> it re-raises unless \<^verbatim>\<open>exist_ok\<close> holds and the path is a directory.
\<close>

function mkdir :: "bool \<Rightarrow> bool \<Rightarrow> path \<Rightarrow> action" where
  "mkdir parents exist_ok p fs =
     (case os_mkdir p fs of
        (None, fs') \<Rightarrow> (None, fs')
      | (Some FileNotFoundError, fs') \<Rightarrow>
          (if \<not> parents \<or> p = [] then (Some FileNotFoundError, fs')
           else (case mkdir True True (butlast p) fs' of
                   (None, fs'') \<Rightarrow> mkdir False exist_ok p fs''
                 | (Some e, fs'') \<Rightarrow> (Some e, fs'')))
      | (Some e, fs') \<Rightarrow>
          (if \<not> exist_ok \<or> \<not> is_dir fs' p then (Some e, fs') else (None, fs')))"
  by pat_completeness auto
termination
  by (relation "measure (\<lambda>(parents, exist_ok, p, fs). 2 * length p + (if parents then 1 else 0))")
     auto

declare mkdir.simps [simp del]

text \<open>\<^verbatim>\<open>open(p, "w")\<close> followed by \<^verbatim>\<open>write\<close>: creates or truncates the regular file.\<close>

definition write_text :: "path \<Rightarrow> string \<Rightarrow> action" where
  "write_text p content fs =
     (case parent_error fs p of
        Some e \<Rightarrow> (Some e, fs)
      | None \<Rightarrow>
          (case lookup fs p of
             Some Dir \<Rightarrow> (Some IsADirectoryError, fs)
           | _ \<Rightarrow> (None, AList.update p (File content) fs)))"

text \<open>\<^verbatim>\<open>os.path.basename\<close> of a path below the base path.\<close>

definition basename :: "path \<Rightarrow> string" where
  "basename p = (case rev p of [] \<Rightarrow> [] | c # cs \<Rightarrow> c)"

text \<open>
  \<^verbatim>\<open>shutil.copy2(src, dst)\<close>: when \<^verbatim>\<open>dst\<close> is a directory the copy goes to
  \<^verbatim>\<open>dst/basename(src)\<close>; copying a file onto itself raises; the source is opened for
  reading (a directory cannot be), then the target is written. A node has no mode and no
  time stamps, so the metadata that \<^verbatim>\<open>copy2\<close> also carries over (\<^verbatim>\<open>copystat\<close>) and the
  \<^verbatim>\<open>PermissionError\<close> of a write to a read-only file are outside the model: a run of the
  model completes whenever the real run does, with the same kinds and bytes, but not the
  other way round.
\<close>

definition copy2 :: "path \<Rightarrow> path \<Rightarrow> action" where
  "copy2 src dst fs =
     (let dst' = (if is_dir fs dst then dst @ [basename src] else dst) in
      if src = dst' \<and> path_exists fs src then (Some SameFileError, fs)
      else (case stat fs src of
              Inl e \<Rightarrow> (Some e, fs)
            | Inr Dir \<Rightarrow> (Some IsADirectoryError, fs)
            | Inr (File b) \<Rightarrow> write_text dst' b fs))"

text \<open>
  \<^verbatim>\<open>src.rglob("*")\<close>: every existing path strictly below \<open>src\<close> (nothing when \<open>src\<close> is
  not a directory, since nothing below it is reachable then), in the order of the
  entries of the file system.
\<close>

definition rglob :: "fs \<Rightarrow> path \<Rightarrow> path list" where
  "rglob fs src = filter (\<lambda>p. strict_prefix src p \<and> path_exists fs p) (remdups (map fst fs))"

text \<open>\<^verbatim>\<open>item.relative_to(src)\<close> for an item below \<open>src\<close>.\<close>

definition relative_to :: "path \<Rightarrow> path \<Rightarrow> path" where
  "relative_to item src = drop (length src) item"

section \<open>ProjectRestructurer: the methods both scripts share\<close>

text \<open>\<^verbatim>\<open>self.new_structure\<close>, in the insertion order of the dictionary.\<close>

definition new_structure :: "(string \<times> string list) list" where
  "new_structure =
     [(''public'', [''assets'', ''models'', ''textures'', ''audio'']),
      (''src'', [''components'', ''utils'', ''styles'']),
      (''docs'', [])]"

definition create_directory_structure :: action where
  "create_directory_structure =
     for_each new_structure (\<lambda>(main_dir, subdirs).
       seq (mkdir False True [main_dir])
           (for_each subdirs (\<lambda>subdir. mkdir False True [main_dir, subdir])))"

definition aframe_components :: "string list" where
  "aframe_components =
     [''pinchable.js'', ''color-change.js'', ''slider.js'',
      ''size-change.js'', ''button.js'', ''menu.js'',
      ''pressable.js'', ''event-manager.js'', ''info-message.js'']"

definition util_files :: "string list" where
  "util_files = [''hit-test.js'', ''stereo-util.js'']"

definition webxr_utils :: path where
  "webxr_utils = [''webxr-samples-main'', ''js'']"

definition texture_sources :: "(path \<times> path) list" where
  "texture_sources =
     [([''webxr-samples-main'', ''media'', ''textures''], [''public'', ''textures'']),
      ([''webxr-samples-main'', ''media'', ''gltf''], [''public'', ''models''])]"

definition copy_item :: "path \<Rightarrow> path \<Rightarrow> path \<Rightarrow> action" where
  "copy_item src dest item fs =
     (if is_file fs item then
        (let relative_path = relative_to item src;
             dest_file = dest @ relative_path
         in seq (mkdir True True (butlast dest_file)) (copy2 item dest_file) fs)
      else (None, fs))"

definition move_media_files :: action where
  "move_media_files =
     for_each texture_sources (\<lambda>(src, dest) fs.
       if path_exists fs src then for_each (rglob fs src) (copy_item src dest) fs
       else (None, fs))"

definition copy_component :: "string \<Rightarrow> action" where
  "copy_component component fs =
     (let src_file = [''Campus-Tour-NYUAD-main'', component] in
      if path_exists fs src_file
      then copy2 src_file ([''src'', ''components''] @ [component]) fs
      else (None, fs))"

definition copy_util :: "string \<Rightarrow> action" where
  "copy_util util_file fs =
     (let src_file = webxr_utils @ [util_file] in
      if path_exists fs src_file
      then copy2 src_file ([''src'', ''utils''] @ [util_file]) fs
      else (None, fs))"

definition move_assets :: action where
  "move_assets =
     seq (for_each aframe_components copy_component)
    (seq (\<lambda>fs. if path_exists fs webxr_utils then for_each util_files copy_util fs
                else (None, fs))
         move_media_files)"

section \<open>Serialising the configuration: \<^verbatim>\<open>json.dump(obj, f, indent=2)\<close>\<close>

text \<open>
  The values the scripts serialise are dictionaries, lists, strings and integers. A
  dictionary keeps its insertion order, so it is an association list.
\<close>

datatype json = JString string | JInt int | JArray "json list" | JObject "(string \<times> json) list"

fun digits :: "nat \<Rightarrow> string" where
  "digits n =
     (if n < 10 then [''0123456789'' ! n]
      else digits (n div 10) @ [''0123456789'' ! (n mod 10)])"

definition int_repr :: "int \<Rightarrow> string" where
  "int_repr i = (if i < 0 then ''-'' @ digits (nat (- i)) else digits (nat i))"

definition hex4 :: "nat \<Rightarrow> string" where
  "hex4 n = map (\<lambda>k. ''0123456789abcdef'' ! ((n div 16 ^ k) mod 16)) [3, 2, 1, 0]"

text \<open>
  The escapes of \<^verbatim>\<open>json.encoder.py_encode_basestring_ascii\<close> (\<^verbatim>\<open>ensure_ascii\<close> is the
  default), for strings whose characters are code points below 256.
\<close>

definition escape_char :: "char \<Rightarrow> string" where
  "escape_char c =
     (if c = CHR 0x22 then [CHR 0x5C, CHR 0x22]
      else if c = CHR 0x5C then [CHR 0x5C, CHR 0x5C]
      else if c = CHR 0x0A then [CHR 0x5C, CHR ''n'']
      else if c = CHR 0x0D then [CHR 0x5C, CHR ''r'']
      else if c = CHR 0x09 then [CHR 0x5C, CHR ''t'']
      else if c = CHR 0x0C then [CHR 0x5C, CHR ''f'']
      else if c = CHR 0x08 then [CHR 0x5C, CHR ''b'']
      else if of_char c < (32::nat) \<or> (126::nat) < of_char c
           then [CHR 0x5C, CHR ''u''] @ hex4 (of_char c)
      else [c])"

definition encode_basestring_ascii :: "string \<Rightarrow> string" where
  "encode_basestring_ascii s = [CHR 0x22] @ concat (map escape_char s) @ [CHR 0x22]"

definition newline_indent :: "nat \<Rightarrow> string" where
  "newline_indent level = CHR 0x0A # replicate (2 * level) CHR '' ''"

fun join :: "string \<Rightarrow> string list \<Rightarrow> string" where
  "join sep [] = []"
| "join sep [x] = x"
| "join sep (x # y # ys) = x @ sep @ join sep (y # ys)"

text \<open>
  With an indent the item separator is a comma followed by a new line and the
  indentation, the key separator is a colon and a space, and an empty container is
  written without a line break.
\<close>

fun iterencode :: "nat \<Rightarrow> json \<Rightarrow> string" where
  "iterencode level (JString s) = encode_basestring_ascii s"
| "iterencode level (JInt i) = int_repr i"
| "iterencode level (JArray xs) =
     (if xs = [] then ''[]''
      else ''['' @ newline_indent (level + 1)
           @ join ('','' @ newline_indent (level + 1)) (map (iterencode (level + 1)) xs)
           @ newline_indent level @ '']'')"
| "iterencode level (JObject kvs) =
     (if kvs = [] then ''{}''
      else ''{'' @ newline_indent (level + 1)
           @ join ('','' @ newline_indent (level + 1))
               (map (\<lambda>(k, v). encode_basestring_ascii k @ '': '' @ iterencode (level + 1) v) kvs)
           @ newline_indent level @ ''}'')"

definition json_dumps :: "json \<Rightarrow> string" where
  "json_dumps obj = iterencode 0 obj"

subsection \<open>Reading a descriptor back: \<^verbatim>\<open>json.loads\<close>\<close>

text \<open>
  A reader for the part of JSON that \<open>json_dumps\<close> writes: objects, arrays, integers and
  strings with the two-character escapes; white space is skipped between tokens. It
  answers \<open>None\<close> on anything else (numbers with a fraction, literals, \<^verbatim>\<open>\u\<close> escapes).
  The fuel bounds the nesting and the number of items; \<open>json_loads\<close> gives as much fuel
  as the text has characters.
\<close>

definition is_ws :: "char \<Rightarrow> bool" where
  "is_ws c = (c = CHR '' '' \<or> c = CHR 0x0A \<or> c = CHR 0x0D \<or> c = CHR 0x09)"

definition skip_ws :: "string \<Rightarrow> string" where
  "skip_ws s = dropWhile is_ws s"

definition is_digit :: "char \<Rightarrow> bool" where
  "is_digit c = (c \<in> set ''0123456789'')"

definition digit_value :: "char \<Rightarrow> nat" where
  "digit_value c = of_char c - 48"

definition unescape :: "char \<Rightarrow> char option" where
  "unescape e =
     (if e = CHR 0x22 then Some (CHR 0x22)
      else if e = CHR 0x5C then Some (CHR 0x5C)
      else if e = CHR ''/'' then Some (CHR ''/'')
      else if e = CHR ''n'' then Some (CHR 0x0A)
      else if e = CHR ''r'' then Some (CHR 0x0D)
      else if e = CHR ''t'' then Some (CHR 0x09)
      else if e = CHR ''f'' then Some (CHR 0x0C)
      else if e = CHR ''b'' then Some (CHR 0x08)
      else None)"

fun scan_string :: "string \<Rightarrow> (string \<times> string) option" where
  "scan_string [] = None"
| "scan_string (c # cs) =
     (if c = CHR 0x22 then Some ([], cs)
      else if c = CHR 0x5C then
        (case cs of
           [] \<Rightarrow> None
         | e # cs' \<Rightarrow>
             (case unescape e of
                None \<Rightarrow> None
              | Some ch \<Rightarrow> map_option (\<lambda>(s, r). (ch # s, r)) (scan_string cs')))
      else map_option (\<lambda>(s, r). (c # s, r)) (scan_string cs))"

definition scan_nat :: "string \<Rightarrow> (nat \<times> string) option" where
  "scan_nat s =
     (let ds = takeWhile is_digit s in
      if ds = [] then None
      else Some (foldl (\<lambda>n d. 10 * n + digit_value d) 0 ds, dropWhile is_digit s))"

definition scan_int :: "string \<Rightarrow> (json \<times> string) option" where
  "scan_int s =
     (case s of
        [] \<Rightarrow> None
      | c # cs \<Rightarrow>
          (if c = CHR ''-'' then map_option (\<lambda>(n, r). (JInt (- int n), r)) (scan_nat cs)
           else map_option (\<lambda>(n, r). (JInt (int n), r)) (scan_nat s)))"

definition expect :: "char \<Rightarrow> string \<Rightarrow> string option" where
  "expect c s = (case skip_ws s of [] \<Rightarrow> None | d # r \<Rightarrow> (if d = c then Some r else None))"

fun parse_value :: "nat \<Rightarrow> string \<Rightarrow> (json \<times> string) option"
  and parse_elements :: "nat \<Rightarrow> string \<Rightarrow> (json list \<times> string) option"
  and parse_members :: "nat \<Rightarrow> string \<Rightarrow> ((string \<times> json) list \<times> string) option"
where
  "parse_value 0 s = None"
| "parse_value (Suc n) s =
     (case skip_ws s of
        [] \<Rightarrow> None
      | c # r \<Rightarrow>
          (if c = CHR 0x22 then map_option (\<lambda>(x, r'). (JString x, r')) (scan_string r)
           else if c = CHR ''['' then
             (case skip_ws r of
                [] \<Rightarrow> None
              | d # r' \<Rightarrow>
                  (if d = CHR '']'' then Some (JArray [], r')
                   else map_option (\<lambda>(xs, r''). (JArray xs, r'')) (parse_elements n r)))
           else if c = CHR ''{'' then
             (case skip_ws r of
                [] \<Rightarrow> None
              | d # r' \<Rightarrow>
                  (if d = CHR ''}'' then Some (JObject [], r')
                   else map_option (\<lambda>(kvs, r''). (JObject kvs, r'')) (parse_members n r)))
           else scan_int (c # r)))"
| "parse_elements 0 s = None"
| "parse_elements (Suc n) s =
     (case parse_value n s of
        None \<Rightarrow> None
      | Some (v, r) \<Rightarrow>
          (case skip_ws r of
             [] \<Rightarrow> None
           | c # r' \<Rightarrow>
               (if c = CHR '','' then map_option (\<lambda>(vs, r''). (v # vs, r'')) (parse_elements n r')
                else if c = CHR '']'' then Some ([v], r')
                else None)))"
| "parse_members 0 s = None"
| "parse_members (Suc n) s =
     (case expect (CHR 0x22) s of
        None \<Rightarrow> None
      | Some r \<Rightarrow>
     (case scan_string r of
        None \<Rightarrow> None
      | Some (k, r1) \<Rightarrow>
     (case expect (CHR '':'') r1 of
        None \<Rightarrow> None
      | Some r2 \<Rightarrow>
     (case parse_value n r2 of
        None \<Rightarrow> None
      | Some (v, r3) \<Rightarrow>
     (case skip_ws r3 of
        [] \<Rightarrow> None
      | c # r4 \<Rightarrow>
          (if c = CHR '','' then
             map_option (\<lambda>(kvs, r5). ((k, v) # kvs, r5)) (parse_members n r4)
           else if c = CHR ''}'' then Some ([(k, v)], r4)
           else None))))))"

definition json_loads :: "string \<Rightarrow> json option" where
  "json_loads s =
     (case parse_value (Suc (length s)) s of
        None \<Rightarrow> None
      | Some (v, r) \<Rightarrow> (if skip_ws r = [] then Some v else None))"

section \<open>The generated files\<close>

definition text_lines :: "string list \<Rightarrow> string" where
  "text_lines ls = concat (map (\<lambda>l. l @ [CHR 0x0A]) ls)"

text \<open>\<^verbatim>\<open>package_json\<close> is the same dictionary in both scripts.\<close>

definition package_json :: json where
  "package_json = JObject
     [(''name'', JString ''aimlab-xr-wireless''),
      (''version'', JString ''1.0.0''),
      (''description'',
         JString ''AIMLAB Wireless XR - Interactive AR Experience with Hand Tracking''),
      (''author'', JString ''Pi Ko <pi.ko@nyu.edu>''),
      (''license'', JString ''MIT''),
      (''scripts'', JObject
         [(''dev'', JString ''npx serve .''),
          (''build'', JString (''echo '' @ [CHR 0x27] @ ''No build step required'' @ [CHR 0x27])),
          (''preview'', JString ''npx serve .'')]),
      (''keywords'', JArray
         [JString ''webxr'', JString ''ar'', JString ''vr'', JString ''hand-tracking'',
          JString ''aframe'']),
      (''repository'', JObject
         [(''type'', JString ''git''),
          (''url'', JString ''https://github.com/yourusername/aimlab-xr-wireless'')])]"

text \<open>\<^verbatim>\<open>vercel_config\<close> of \<^verbatim>\<open>clean.py\<close>: two response headers.\<close>

definition clean_vercel_config :: json where
  "clean_vercel_config = JObject
     [(''version'', JInt 2),
      (''builds'', JArray
         [JObject [(''src'', JString ''index.html''), (''use'', JString ''@vercel/static'')]]),
      (''routes'', JArray
         [JObject [(''src'', JString ''/(.*)''), (''dest'', JString ''/$1'')]]),
      (''headers'', JArray
         [JObject
            [(''source'', JString ''/(.*)''),
             (''headers'', JArray
                [JObject [(''key'', JString ''Cross-Origin-Embedder-Policy''),
                          (''value'', JString ''require-corp'')],
                 JObject [(''key'', JString ''Cross-Origin-Opener-Policy''),
                          (''value'', JString ''same-origin'')]])]])]"

text \<open>\<^verbatim>\<open>vercel_config\<close> of \<^verbatim>\<open>restructure_project.py\<close>: a third header.\<close>

definition restructure_vercel_config :: json where
  "restructure_vercel_config = JObject
     [(''version'', JInt 2),
      (''builds'', JArray
         [JObject [(''src'', JString ''index.html''), (''use'', JString ''@vercel/static'')]]),
      (''routes'', JArray
         [JObject [(''src'', JString ''/(.*)''), (''dest'', JString ''/$1'')]]),
      (''headers'', JArray
         [JObject
            [(''source'', JString ''/(.*)''),
             (''headers'', JArray
                [JObject [(''key'', JString ''Cross-Origin-Embedder-Policy''),
                          (''value'', JString ''require-corp'')],
                 JObject [(''key'', JString ''Cross-Origin-Opener-Policy''),
                          (''value'', JString ''same-origin'')],
                 JObject [(''key'', JString ''Permissions-Policy''),
                          (''value'', JString ''xr-spatial-tracking=(self)'')]])]])]"

text \<open>
  The text templates, as the bytes of their UTF-8 encoding (the encoding of
  \<^verbatim>\<open>open(path, "w")\<close> is the one of the locale, taken to be UTF-8).
\<close>

definition gitignore_content :: string where
  "gitignore_content = text_lines
     [''# Dependencies'',
      ''node_modules/'',
      ''npm-debug.log*'',
      ''yarn-debug.log*'',
      ''yarn-error.log*'',
      [],
      ''# Build output'',
      ''dist/'',
      ''build/'',
      ''.vercel/'',
      [],
      ''# OS files'',
      ''.DS_Store'',
      ''Thumbs.db'',
      [],
      ''# IDE files'',
      ''.vscode/'',
      ''.idea/'',
      ''*.swp'',
      ''*.swo'',
      [],
      ''# Environment files'',
      ''.env'',
      ''.env.local'',
      ''.env.production'',
      [],
      ''# Temporary files'',
      ''*.tmp'',
      ''*.temp'']"

definition clean_readme_content :: string where
  "clean_readme_content = text_lines
     [''# AIMLAB Wireless XR'',
      [],
      ''An interactive AR experience combining hand tracking with immersive augmented reality.'',
      [],
      ''## '' @ [CHR 0xF0, CHR 0x9F, CHR 0x9A, CHR 0x80] @ '' Features'',
      [],
      ''- **Hand Tracking**: Natural hand gesture interactions'',
      ''- **AR Passthrough**: See-through AR experience on compatible devices'',
      ''- **Interactive Objects**: Pinchable and manipulable 3D objects'',
      ''- **Planet System**: Animated solar system visualization'',
      ''- **Control Panel**: Interactive UI elements in 3D space'',
      [],
      ''## '' @ [CHR 0xF0, CHR 0x9F, CHR 0x9B, CHR 0xA0, CHR 0xEF, CHR 0xB8, CHR 0x8F] @ '' Technology Stack'',
      [],
      ''- **A-Frame**: WebVR/AR framework'',
      ''- **WebXR API**: Modern AR/VR web standard'',
      ''- **Three.js**: 3D graphics (via A-Frame)'',
      [],
      ''## '' @ [CHR 0xF0, CHR 0x9F, CHR 0x93, CHR 0x81] @ '' Project Structure'',
      [],
      ''```'',
      ''aimlab-xr-wireless/'',
      [CHR 0xE2, CHR 0x94, CHR 0x9C, CHR 0xE2, CHR 0x94, CHR 0x80, CHR 0xE2, CHR 0x94, CHR 0x80] @ '' index.html          # Main application file'',
      [CHR 0xE2, CHR 0x94, CHR 0x9C, CHR 0xE2, CHR 0x94, CHR 0x80, CHR 0xE2, CHR 0x94, CHR 0x80] @ '' public/             # Static assets'',
      [CHR 0xE2, CHR 0x94, CHR 0x82] @ ''   '' @ [CHR 0xE2, CHR 0x94, CHR 0x9C, CHR 0xE2, CHR 0x94, CHR 0x80, CHR 0xE2, CHR 0x94, CHR 0x80] @ '' assets/        # General assets'',
      [CHR 0xE2, CHR 0x94, CHR 0x82] @ ''   '' @ [CHR 0xE2, CHR 0x94, CHR 0x9C, CHR 0xE2, CHR 0x94, CHR 0x80, CHR 0xE2, CHR 0x94, CHR 0x80] @ '' models/        # 3D models (GLTF)'',
      [CHR 0xE2, CHR 0x94, CHR 0x82] @ ''   '' @ [CHR 0xE2, CHR 0x94, CHR 0x9C, CHR 0xE2, CHR 0x94, CHR 0x80, CHR 0xE2, CHR 0x94, CHR 0x80] @ '' textures/      # Texture files'',
      [CHR 0xE2, CHR 0x94, CHR 0x82] @ ''   '' @ [CHR 0xE2, CHR 0x94, CHR 0x94, CHR 0xE2, CHR 0x94, CHR 0x80, CHR 0xE2, CHR 0x94, CHR 0x80] @ '' audio/         # Sound files'',
      [CHR 0xE2, CHR 0x94, CHR 0x9C, CHR 0xE2, CHR 0x94, CHR 0x80, CHR 0xE2, CHR 0x94, CHR 0x80] @ '' src/               # Source code'',
      [CHR 0xE2, CHR 0x94, CHR 0x82] @ ''   '' @ [CHR 0xE2, CHR 0x94, CHR 0x9C, CHR 0xE2, CHR 0x94, CHR 0x80, CHR 0xE2, CHR 0x94, CHR 0x80] @ '' components/    # A-Frame components'',
      [CHR 0xE2, CHR 0x94, CHR 0x82] @ ''   '' @ [CHR 0xE2, CHR 0x94, CHR 0x9C, CHR 0xE2, CHR 0x94, CHR 0x80, CHR 0xE2, CHR 0x94, CHR 0x80] @ '' utils/         # Utility functions'',
      [CHR 0xE2, CHR 0x94, CHR 0x82] @ ''   '' @ [CHR 0xE2, CHR 0x94, CHR 0x94, CHR 0xE2, CHR 0x94, CHR 0x80, CHR 0xE2, CHR 0x94, CHR 0x80] @ '' styles/        # CSS styles'',
      [CHR 0xE2, CHR 0x94, CHR 0x9C, CHR 0xE2, CHR 0x94, CHR 0x80, CHR 0xE2, CHR 0x94, CHR 0x80] @ '' docs/              # Documentation'',
      [CHR 0xE2, CHR 0x94, CHR 0x9C, CHR 0xE2, CHR 0x94, CHR 0x80, CHR 0xE2, CHR 0x94, CHR 0x80] @ '' package.json       # Project configuration'',
      [CHR 0xE2, CHR 0x94, CHR 0x94, CHR 0xE2, CHR 0x94, CHR 0x80, CHR 0xE2, CHR 0x94, CHR 0x80] @ '' vercel.json        # Vercel deployment config'',
      ''```'',
      [],
      ''## '' @ [CHR 0xF0, CHR 0x9F, CHR 0x9A, CHR 0x80] @ '' Quick Start'',
      [],
      ''1. **Clone the repository**'',
      ''   ```bash'',
      ''   git clone https://github.com/yourusername/aimlab-xr-wireless'',
      ''   cd aimlab-xr-wireless'',
      ''   ```'',
      [],
      ''2. **Install dependencies** (optional, for development server)'',
      ''   ```bash'',
      ''   npm install'',
      ''   ```'',
      [],
      ''3. **Run development server**'',
      ''   ```bash'',
      ''   npm run dev'',
      ''   ```'',
      [],
      ''4. **Open in browser**'',
      ''   Navigate to `http://localhost:3000`'',
      [],
      ''## '' @ [CHR 0xF0, CHR 0x9F, CHR 0x93, CHR 0xB1] @ '' AR Mode'',
      [],
      ''To experience AR mode:'',
      ''1. Open on a WebXR-compatible device (e.g., Meta Quest, Android with ARCore)'',
      ''2. Click '' @ [CHR 0x22] @ ''Enter AR Mode'' @ [CHR 0x22] @ '' button'',
      ''3. Use hand gestures to interact with objects'',
      [],
      ''## '' @ [CHR 0xF0, CHR 0x9F, CHR 0x8E, CHR 0xAE] @ '' Controls'',
      [],
      ''- **Pinch**: Grab and move objects'',
      ''- **Point**: Interact with buttons'',
      ''- **Look**: Gaze-based cursor control (fallback)'',
      [],
      ''## '' @ [CHR 0xF0, CHR 0x9F, CHR 0x8C, CHR 0x90] @ '' Deployment'',
      [],
      ''### Deploy to Vercel'',
      [],
      ''[![Deploy with Vercel](https://vercel.com/button)](https://vercel.com/new/clone?repository-url=https://github.com/yourusername/aimlab-xr-wireless)'',
      [],
      ''Or manually:'',
      [],
      ''```bash'',
      ''npm i -g vercel'',
      ''vercel'',
      ''```'',
      [],
      ''## '' @ [CHR 0xF0, CHR 0x9F, CHR 0xA4, CHR 0x9D] @ '' Contributing'',
      [],
      ''Contributions are welcome! Please feel free to submit a Pull Request.'',
      [],
      ''## '' @ [CHR 0xF0, CHR 0x9F, CHR 0x93, CHR 0x84] @ '' License'',
      [],
      ''This project is licensed under the MIT License.'',
      [],
      ''## '' @ [CHR 0xF0, CHR 0x9F, CHR 0x91, CHR 0xA8, CHR 0xE2, CHR 0x80, CHR 0x8D, CHR 0xF0, CHR 0x9F, CHR 0x92, CHR 0xBB] @ '' Author'',
      [],
      ''**Pi Ko**  '',
      ''Email: [pi.ko@nyu.edu](mailto:pi.ko@nyu.edu)'',
      [],
      ''## '' @ [CHR 0xF0, CHR 0x9F, CHR 0x99, CHR 0x8F] @ '' Acknowledgments'',
      [],
      ''- A-Frame community for the excellent WebXR framework'',
      ''- WebXR samples for reference implementations'',
      ''- NYU Abu Dhabi for campus tour example code'']"

definition tech_doc :: string where
  "tech_doc = text_lines
     [''# Technical Documentation - AIMLAB XR Wireless'',
      [],
      ''## Architecture Overview'',
      [],
      ''The application uses a component-based architecture built on A-Frame, which abstracts WebXR APIs for easier development.'',
      [],
      ''## Key Components'',
      [],
      ''### 1. AR Session Manager'',
      ''- Handles WebXR session initialization'',
      ''- Manages AR/VR mode transitions'',
      ''- Controls passthrough visibility'',
      [],
      ''### 2. Interactive Components'',
      ''- **interactive-button**: Touch-enabled 3D buttons'',
      ''- **pinchable**: Hand-tracking grab interactions'',
      ''- **planet-system**: Animated celestial bodies'',
      ''- **aimlab-title**: 3D title animation'',
      [],
      ''## WebXR Features Used'',
      [],
      ''- `immersive-ar`: AR session mode'',
      ''- `hand-tracking`: Hand pose detection'',
      ''- `dom-overlay`: UI overlay in AR'',
      ''- `hit-test`: Surface detection (future feature)'',
      ''- `anchors`: Persistent AR anchors (future feature)'',
      [],
      ''## Performance Considerations'',
      [],
      ''1. **Texture Optimization**: Use compressed textures for better performance'',
      ''2. **Model Complexity**: Keep polygon counts reasonable'',
      ''3. **Update Loops**: Minimize per-frame calculations'',
      [],
      ''## Browser Compatibility'',
      [],
      ''- Chrome 79+ (Android)'',
      ''- Edge 79+ (Windows Mixed Reality)'',
      ''- Firefox Reality'',
      ''- Oculus Browser'',
      ''- Safari (WebXR Viewer app)'',
      [],
      ''## Security Considerations'',
      [],
      ''- HTTPS required for WebXR'',
      ''- Permissions needed: Camera, Motion sensors'',
      ''- CORS headers configured for asset loading'']"

definition restructure_readme_content :: string where
  "restructure_readme_content = text_lines
     [''# AIMLAB Wireless XR'',
      [],
      ''An interactive AR experience combining hand tracking with immersive augmented reality.'',
      [],
      ''## '' @ [CHR 0xF0, CHR 0x9F, CHR 0x9A, CHR 0x80] @ '' Features'',
      [],
      ''- **Hand Tracking**: Natural hand gesture interactions'',
      ''- **AR Passthrough**: See-through AR experience on compatible devices'',
      ''- **Interactive Objects**: Pinchable and manipulable 3D objects'',
      ''- **Planet System**: Animated solar system visualization'',
      ''- **Control Panel**: Interactive UI elements in 3D space'',
      [],
      ''## '' @ [CHR 0xF0, CHR 0x9F, CHR 0x9B, CHR 0xA0, CHR 0xEF, CHR 0xB8, CHR 0x8F] @ '' Technology Stack'',
      [],
      ''- **A-Frame**: WebVR/AR framework'',
      ''- **WebXR API**: Modern AR/VR web standard'',
      ''- **Three.js**: 3D graphics (via A-Frame)'',
      [],
      ''## '' @ [CHR 0xF0, CHR 0x9F, CHR 0x9A, CHR 0x80] @ '' Quick Start'',
      [],
      ''1. **Run development server**'',
      ''   ```bash'',
      ''   npm run dev'',
      ''   ```'',
      [],
      ''2. **Open in browser**'',
      ''   Navigate to `http://localhost:3000`'',
      [],
      ''## '' @ [CHR 0xF0, CHR 0x9F, CHR 0x93, CHR 0xB1] @ '' AR Mode'',
      [],
      ''To experience AR mode:'',
      ''1. Open on a WebXR-compatible device'',
      ''2. Click '' @ [CHR 0x22] @ ''Enter AR Mode'' @ [CHR 0x22] @ '' button'',
      ''3. Use hand gestures to interact with objects'',
      [],
      ''## '' @ [CHR 0xF0, CHR 0x9F, CHR 0x8C, CHR 0x90] @ '' Deployment'',
      [],
      ''Deploy to Vercel:'',
      ''```bash'',
      ''npm i -g vercel'',
      ''vercel'',
      ''```'',
      [],
      ''## '' @ [CHR 0xF0, CHR 0x9F, CHR 0x91, CHR 0xA8, CHR 0xE2, CHR 0x80, CHR 0x8D, CHR 0xF0, CHR 0x9F, CHR 0x92, CHR 0xBB] @ '' Author'',
      [],
      ''**Pi Ko**  '',
      ''Email: [pi.ko@nyu.edu](mailto:pi.ko@nyu.edu)'']"

section \<open>\<^verbatim>\<open>clean.py\<close>\<close>

definition clean_create_config_files :: action where
  "clean_create_config_files =
     seq (write_text [''package.json''] (json_dumps package_json))
    (seq (write_text [''vercel.json''] (json_dumps clean_vercel_config))
         (write_text [''.gitignore''] gitignore_content))"

definition clean_create_documentation :: action where
  "clean_create_documentation =
     seq (write_text [''README.md''] clean_readme_content)
    (seq (mkdir False True [''docs''])
         (write_text [''docs'', ''TECHNICAL.md''] tech_doc))"

definition old_dirs :: "string list" where
  "old_dirs = [''Campus-Tour-NYUAD-main'', ''webxr-samples-main'', ''.git'']"

text \<open>
  \<^verbatim>\<open>cleanup_old_files\<close> only prints: the result is the list of the directory names for
  which the line \<^verbatim>\<open>Would remove: ... (skipped for safety)\<close> is printed, with the state.
  The call of \<^verbatim>\<open>shutil.rmtree\<close> is a comment in the source.
\<close>

definition cleanup_old_files :: "fs \<Rightarrow> string list \<times> fs" where
  "cleanup_old_files fs =
     (filter (\<lambda>old_dir. path_exists fs [old_dir] \<and> is_dir fs [old_dir]) old_dirs, fs)"

text \<open>\<^verbatim>\<open>create_index_html\<close> only prints.\<close>

definition create_index_html :: action where
  "create_index_html fs = (None, fs)"

definition clean_run :: action where
  "clean_run =
     seq create_directory_structure
    (seq move_assets
    (seq clean_create_config_files
    (seq clean_create_documentation
    (seq create_index_html
         (\<lambda>fs. (None, snd (cleanup_old_files fs)))))))"

subsection \<open>The command line and the process\<close>

text \<open>
  Both scripts end with the same block: an \<^verbatim>\<open>ArgumentParser\<close> with the one argument
  \<^verbatim>\<open>--path\<close> (default \<^verbatim>\<open>.\<close>), to which \<^verbatim>\<open>argparse\<close> itself adds \<^verbatim>\<open>-h\<close> and \<^verbatim>\<open>--help\<close>;
  \<^verbatim>\<open>parse_args()\<close>; then \<^verbatim>\<open>ProjectRestructurer(args.path).run()\<close>.

  \<^verbatim>\<open>parse_args\<close> below follows \<^verbatim>\<open>ArgumentParser.parse_args\<close> of CPython 3.11 for this parser,
  on the arguments after the program name. Every argument is first classified
  (\<^verbatim>\<open>_parse_optional\<close>, \<^verbatim>\<open>_get_option_tuples\<close>): a positional, the marker \<^verbatim>\<open>--\<close> after which
  everything is positional, one of the three option strings (exact, with \<^verbatim>\<open>=value\<close>, as an
  unambiguous abbreviation, or \<^verbatim>\<open>-h\<close> with characters attached), an ambiguous abbreviation
  (a usage error at once), or an unknown option. The arguments are then consumed from
  left to right (\<^verbatim>\<open>consume_optional\<close>): the help action prints and raises \<^verbatim>\<open>SystemExit(0)\<close>,
  \<^verbatim>\<open>--path\<close> takes the attached value or else the next argument, which must be a
  positional, and what nothing consumes is collected; collected arguments at the end and
  every other fault are a usage error, \<^verbatim>\<open>SystemExit(2)\<close>. What the parser prints is not
  modelled, and characters are bytes (\<^verbatim>\<open>\d\<close> matches the ten ASCII digits).
\<close>

datatype option_action = HelpAction | StoreAction

text \<open>
  The class of one argument. An option carries its action, its option string and, when
  a value is attached, the separator (\<^verbatim>\<open>=\<close> or empty) with that value.
\<close>

datatype arg_class =
    Positional
  | Marker
  | Unknown
  | Ambiguous
  | Optional option_action string "(string \<times> string) option"

datatype parsed = Namespace string | SystemExit nat

definition option_strings :: "string list" where
  "option_strings = [''-h'', ''--help'', ''--path'']"

definition action_of :: "string \<Rightarrow> option_action" where
  "action_of s = (if s = ''--path'' then StoreAction else HelpAction)"

text \<open>\<^verbatim>\<open>s.partition('=')\<close>: the part before the first \<^verbatim>\<open>=\<close> and, if there is one, the part after.\<close>

definition partition_eq :: "string \<Rightarrow> string \<times> string option" where
  "partition_eq s =
     (if CHR ''='' \<in> set s
      then (takeWhile (\<lambda>c. c \<noteq> CHR ''='') s, Some (tl (dropWhile (\<lambda>c. c \<noteq> CHR ''='') s)))
      else (s, None))"

definition is_decimal :: "char \<Rightarrow> bool" where
  "is_decimal c = (c \<in> set ''0123456789'')"

text \<open>
  \<^verbatim>\<open>_negative_number_matcher\<close>, the pattern \<^verbatim>\<open>^-\d+$|^-\d*\.\d+$\<close>, where \<^verbatim>\<open>$\<close> also matches
  before a newline that ends the string.
\<close>

definition negative_number :: "string \<Rightarrow> bool" where
  "negative_number s =
     (case s of
        [] \<Rightarrow> False
      | c # r \<Rightarrow>
          c = CHR ''-'' \<and>
          (let r' = (if r \<noteq> [] \<and> last r = CHR 0x0A then butlast r else r);
               a = takeWhile is_decimal r';
               b = dropWhile is_decimal r'
           in (a \<noteq> [] \<and> b = [])
              \<or> (b \<noteq> [] \<and> hd b = CHR ''.'' \<and> tl b \<noteq> [] \<and> list_all is_decimal (tl b))))"

text \<open>
  \<^verbatim>\<open>_get_option_tuples\<close>, for an argument of at least two characters that starts with
  \<^verbatim>\<open>-\<close>: the options that a double-dash argument abbreviates, or the single-dash option
  it starts with, the rest being the attached value.
\<close>

definition get_option_tuples :: "string \<Rightarrow> arg_class list" where
  "get_option_tuples s =
     (if take 2 s = ''--''
      then (case partition_eq s of
              (pre, e) \<Rightarrow>
                map (\<lambda>opt. Optional (action_of opt) opt (map_option (Pair ''='') e))
                    (filter (prefix pre) option_strings))
      else map (\<lambda>opt. if opt = take 2 s
                     then Optional (action_of opt) opt (Some ([], drop 2 s))
                     else Optional (action_of opt) opt None)
               (filter (\<lambda>opt. opt = take 2 s \<or> prefix s opt) option_strings))"

definition parse_optional :: "string \<Rightarrow> arg_class" where
  "parse_optional s =
     (if s = [] then Positional
      else if hd s \<noteq> CHR ''-'' then Positional
      else if s \<in> set option_strings then Optional (action_of s) s None
      else if length s = 1 then Positional
      else (case partition_eq s of
              (opt, e) \<Rightarrow>
                if e \<noteq> None \<and> opt \<in> set option_strings
                then Optional (action_of opt) opt (map_option (Pair ''='') e)
                else (case get_option_tuples s of
                        [] \<Rightarrow> if negative_number s then Positional
                              else if CHR '' '' \<in> set s then Positional
                              else Unknown
                      | [t] \<Rightarrow> t
                      | t # u # ts \<Rightarrow> Ambiguous)))"

text \<open>The first pass of \<^verbatim>\<open>_parse_known_args\<close> over the arguments.\<close>

fun classify :: "string list \<Rightarrow> (arg_class \<times> string) list" where
  "classify [] = []"
| "classify (s # ss) =
     (if s = ''--'' then (Marker, s) # map (Pair Positional) ss
      else (parse_optional s, s) # classify ss)"

text \<open>
  The loop of \<^verbatim>\<open>consume_optional\<close> over the characters attached to \<^verbatim>\<open>-h\<close> with no \<^verbatim>\<open>=\<close>: each
  is read as a further single-dash flag. A dash, or an \<^verbatim>\<open>=\<close> after a further \<^verbatim>\<open>h\<close>, is a
  usage error; at any other end the help action runs. The result is the exit status.
\<close>

fun short_flags :: "string \<Rightarrow> nat" where
  "short_flags [] = 0"
| "short_flags (c # r) =
     (if c = CHR ''-'' then 2
      else if c \<noteq> CHR ''h'' then 0
      else if r = [] then 0
      else if hd r = CHR ''='' then 2
      else short_flags r)"

definition take_help :: "string \<Rightarrow> (string \<times> string) option \<Rightarrow> nat" where
  "take_help ostr ex =
     (case ex of
        None \<Rightarrow> 0
      | Some (sep, e) \<Rightarrow>
          if take 2 ostr \<noteq> ''--'' \<and> e \<noteq> [] then (if sep \<noteq> [] then 2 else short_flags e)
          else 2)"

text \<open>
  The second pass: \<^verbatim>\<open>path\<close> is the value of the namespace so far, \<^verbatim>\<open>extras\<close> tells whether
  an argument was left unconsumed.
\<close>

fun consume :: "string \<Rightarrow> bool \<Rightarrow> (arg_class \<times> string) list \<Rightarrow> parsed" where
  "consume path extras [] = (if extras then SystemExit 2 else Namespace path)"
| "consume path extras ((c, s) # rest) =
     (case c of
        Optional a ostr ex \<Rightarrow>
          (case a of
             HelpAction \<Rightarrow> SystemExit (take_help ostr ex)
           | StoreAction \<Rightarrow>
               (case ex of
                  Some (sep, e) \<Rightarrow> consume e extras rest
                | None \<Rightarrow>
                    (case rest of
                       [] \<Rightarrow> SystemExit 2
                     | (c', v) # rest' \<Rightarrow>
                         if c' = Positional then consume v extras rest' else SystemExit 2)))
      | Ambiguous \<Rightarrow> SystemExit 2
      | _ \<Rightarrow> consume path True rest)"

definition parse_args :: "string list \<Rightarrow> parsed" where
  "parse_args argv =
     (if Ambiguous \<in> fst ` set (classify argv) then SystemExit 2
      else consume ''.'' False (classify argv))"

text \<open>
  The process. \<^verbatim>\<open>argv\<close> holds the arguments after the program name and \<^verbatim>\<open>disk d\<close> is the
  file system below the base path \<^verbatim>\<open>Path(d)\<close>. \<^verbatim>\<open>SystemExit\<close> ends the interpreter with its
  code before \<^verbatim>\<open>run()\<close> is called; an exception of \<^verbatim>\<open>run()\<close>, which nothing catches, ends it
  with status 1. The file system above has no permissions, capacity or devices, so an
  \<^verbatim>\<open>OSError\<close> that comes from those (a read-only destination, a full disk) is not a fault
  of \<^verbatim>\<open>clean_run\<close>: \<^verbatim>\<open>os_fault\<close> tells whether one occurs during \<^verbatim>\<open>run()\<close>, and it ends the
  process with status 1 like every other exception.
\<close>

definition clean_main :: "string list \<Rightarrow> (string \<Rightarrow> fs) \<Rightarrow> bool \<Rightarrow> nat" where
  "clean_main argv disk os_fault =
     (case parse_args argv of
        SystemExit n \<Rightarrow> n
      | Namespace d \<Rightarrow>
          (case fst (clean_run (disk d)) of
             None \<Rightarrow> if os_fault then 1 else 0
           | Some e \<Rightarrow> 1))"

section \<open>\<^verbatim>\<open>restructure_project.py\<close>\<close>

definition restructure_create_config_files :: action where
  "restructure_create_config_files =
     seq (write_text [''package.json''] (json_dumps package_json))
         (write_text [''vercel.json''] (json_dumps restructure_vercel_config))"

definition restructure_create_documentation :: action where
  "restructure_create_documentation = write_text [''README.md''] restructure_readme_content"

definition restructure_run :: action where
  "restructure_run =
     seq create_directory_structure
    (seq move_assets
    (seq restructure_create_config_files
         restructure_create_documentation))"

definition restructure_main :: "string list \<Rightarrow> (string \<Rightarrow> fs) \<Rightarrow> bool \<Rightarrow> nat" where
  "restructure_main argv disk os_fault =
     (case parse_args argv of
        SystemExit n \<Rightarrow> n
      | Namespace d \<Rightarrow>
          (case fst (restructure_run (disk d)) of
             None \<Rightarrow> if os_fault then 1 else 0
           | Some e \<Rightarrow> 1))"

section \<open>Relations between states used in the proofs\<close>

definition creates :: "path \<Rightarrow> fs \<Rightarrow> fs \<Rightarrow> bool" where
  "creates p fs fs' \<longleftrightarrow>
     (\<forall>q. lookup fs' q = lookup fs q \<or> (prefix q p \<and> lookup fs q = None \<and> lookup fs' q = Some Dir))
   \<and> (\<forall>P. (\<forall>q. prefix q p \<and> lookup fs q = None \<longrightarrow> \<not> P q)
          \<longrightarrow> filter P (map fst fs') = filter P (map fst fs))"

definition protected :: "path \<Rightarrow> bool" where
  "protected p = (case p of [] \<Rightarrow> True | c # cs \<Rightarrow> c \<in> set old_dirs)"

definition families :: "(path \<times> path) list" where
  "families =
     [([''Campus-Tour-NYUAD-main''], [''src'', ''components'']),
      (webxr_utils, [''src'', ''utils''])] @ texture_sources"

definition copy_pair :: "path \<Rightarrow> path \<Rightarrow> bool" where
  "copy_pair src dst \<longleftrightarrow> (\<exists>(S, F)\<in>set families. \<exists>r. r \<noteq> [] \<and> src = S @ r \<and> dst = F @ r)"

definition wants :: "(path \<times> string) list \<Rightarrow> fs \<Rightarrow> path \<Rightarrow> string \<Rightarrow> bool" where
  "wants st fs p b \<longleftrightarrow>
     map_of st p = Some b
   \<or> (\<exists>src dst. copy_pair src dst \<and> read_bytes fs src = Some b
         \<and> (p = dst \<or> p = dst @ [basename src]))"

definition statics_ok :: "(path \<times> string) list \<Rightarrow> bool" where
  "statics_ok st \<longleftrightarrow>
     (\<forall>(p, b)\<in>set st. p \<noteq> [] \<and> hd p \<notin> set old_dirs \<and> hd p \<noteq> ''src'' \<and> hd p \<noteq> ''public'')"

definition le_fs :: "(path \<times> string) list \<Rightarrow> fs \<Rightarrow> fs \<Rightarrow> bool" where
  "le_fs st s t \<longleftrightarrow>
     (\<forall>p. protected p \<longrightarrow> lookup t p = lookup s p)
   \<and> filter protected (map fst t) = filter protected (map fst s)
   \<and> (\<forall>p. lookup s p = Some Dir \<longrightarrow> lookup t p = Some Dir)
   \<and> (\<forall>p b. lookup s p = Some (File b) \<longrightarrow> (\<exists>b'. lookup t p = Some (File b')))
   \<and> (\<forall>p b. lookup s p = Some (File b) \<longrightarrow> wants st s p b \<longrightarrow> lookup t p = Some (File b))"

definition based :: "fs \<Rightarrow> bool" where
  "based s \<longleftrightarrow> lookup s [] = Some Dir"

definition good :: "(path \<times> string) list \<Rightarrow> action \<Rightarrow> bool" where
  "good st A \<longleftrightarrow>
     (\<forall>s r s'. based s \<longrightarrow> A s = (r, s') \<longrightarrow>
        le_fs st s s'
      \<and> (r = None \<longrightarrow> (\<forall>t. le_fs st s' t \<longrightarrow> A t = (None, t)))
      \<and> (r \<noteq> None \<longrightarrow> (\<exists>e. A s' = (Some e, s'))))"

text \<open>The files each script writes from a fixed text, with that text.\<close>

definition clean_statics :: "(path \<times> string) list" where
  "clean_statics =
     [([''package.json''], json_dumps package_json),
      ([''vercel.json''], json_dumps clean_vercel_config),
      ([''.gitignore''], gitignore_content),
      ([''README.md''], clean_readme_content),
      ([''docs'', ''TECHNICAL.md''], tech_doc)]"

definition restructure_statics :: "(path \<times> string) list" where
  "restructure_statics =
     [([''package.json''], json_dumps package_json),
      ([''vercel.json''], json_dumps restructure_vercel_config),
      ([''README.md''], restructure_readme_content)]"

text \<open>An action that never changes the entry of path \<open>p\<close>.\<close>

definition keeps :: "path \<Rightarrow> action \<Rightarrow> bool" where
  "keeps p A \<longleftrightarrow> (\<forall>s. lookup (snd (A s)) p = lookup s p)"

text \<open>An action that creates no directory.\<close>

definition no_new_dirs :: "action \<Rightarrow> bool" where
  "no_new_dirs A \<longleftrightarrow> (\<forall>s q. lookup (snd (A s)) q = Some Dir \<longrightarrow> lookup s q = Some Dir)"

text \<open>The directories of \<open>new_structure\<close>, as paths.\<close>

definition planned_directories :: "path list" where
  "planned_directories =
     concat (map (\<lambda>(main_dir, subdirs). [main_dir] # map (\<lambda>subdir. [main_dir, subdir]) subdirs)
               new_structure)"

text \<open>The keys of a JSON object, in order.\<close>

definition object_keys :: "json \<Rightarrow> string list" where
  "object_keys v = (case v of JObject kvs \<Rightarrow> map fst kvs | _ \<Rightarrow> [])"

section \<open>Lemmas about the file system operations\<close>

lemma lookup_update [simp]:
  "lookup (AList.update k v fs) q = (if q = k then Some v else lookup fs q)"
  by (simp add: lookup_def update_conv')

lemma update_same: "lookup fs k = Some v \<Longrightarrow> AList.update k v fs = fs"
  by (simp add: lookup_def update_triv)

lemma check_dirs_None:
  "check_dirs fs pre cs = None \<longleftrightarrow> (\<forall>i<length cs. lookup fs (pre @ take i cs) = Some Dir)"
proof (induction cs arbitrary: pre)
  case Nil
  then show ?case by simp
next
  case (Cons c cs)
  show ?case
  proof (cases "lookup fs pre")
    case None
    then show ?thesis by (auto intro: exI[of _ 0])
  next
    case (Some n)
    show ?thesis
    proof (cases n)
      case (File b)
      with Some show ?thesis by (auto intro: exI[of _ 0])
    next
      case Dir
      have "(\<forall>i<length (c # cs). lookup fs (pre @ take i (c # cs)) = Some Dir)
            \<longleftrightarrow> (\<forall>i<length cs. lookup fs ((pre @ [c]) @ take i cs) = Some Dir)"
        using Some Dir by (auto simp: less_Suc_eq_0_disj)
      with Some Dir Cons.IH[of "pre @ [c]"] show ?thesis by simp
    qed
  qed
qed

lemma strict_prefix_take: "strict_prefix q p \<longleftrightarrow> (\<exists>i<length p. q = take i p)"
proof
  assume "strict_prefix q p"
  then obtain zs where "p = q @ zs" "zs \<noteq> []" by (auto simp: strict_prefix_def prefix_def)
  then show "\<exists>i<length p. q = take i p" by (intro exI[of _ "length q"]) simp
next
  assume "\<exists>i<length p. q = take i p"
  then obtain i where "i < length p" "q = take i p" by blast
  then show "strict_prefix q p"
    by (metis append_take_drop_id drop_eq_Nil leD prefixI prefix_order.less_le self_append_conv)
qed

lemma parent_error_None:
  "parent_error fs p = None \<longleftrightarrow> (\<forall>q. strict_prefix q p \<longrightarrow> lookup fs q = Some Dir)"
  by (auto simp: parent_error_def check_dirs_None strict_prefix_take)

lemma check_dirs_cong:
  "(\<And>i. i < length cs \<Longrightarrow> lookup fs (pre @ take i cs) = lookup fs' (pre @ take i cs))
   \<Longrightarrow> check_dirs fs pre cs = check_dirs fs' pre cs"
proof (induction cs arbitrary: pre)
  case Nil
  then show ?case by simp
next
  case (Cons c cs)
  have 0: "lookup fs pre = lookup fs' pre" using Cons.prems[of 0] by simp
  have "check_dirs fs (pre @ [c]) cs = check_dirs fs' (pre @ [c]) cs"
  proof (rule Cons.IH)
    fix i assume "i < length cs"
    then show "lookup fs ((pre @ [c]) @ take i cs) = lookup fs' ((pre @ [c]) @ take i cs)"
      using Cons.prems[of "Suc i"] by simp
  qed
  with 0 show ?case by (simp split: option.splits node.splits)
qed

lemma parent_error_cong:
  assumes "\<And>q. strict_prefix q p \<Longrightarrow> lookup fs q = lookup fs' q"
  shows "parent_error fs p = parent_error fs' p"
  unfolding parent_error_def
  by (rule check_dirs_cong) (use assms in \<open>auto simp: strict_prefix_take\<close>)

lemma stat_cong:
  assumes "\<And>q. prefix q p \<Longrightarrow> lookup fs q = lookup fs' q"
  shows "stat fs p = stat fs' p"
proof -
  have "parent_error fs p = parent_error fs' p"
    by (rule parent_error_cong) (use assms in \<open>auto simp: strict_prefix_def\<close>)
  moreover have "lookup fs p = lookup fs' p" using assms by simp
  ultimately show ?thesis by (auto simp: stat_def split: option.splits)
qed

lemma stat_Inr: "stat fs p = Inr n \<longleftrightarrow> parent_error fs p = None \<and> lookup fs p = Some n"
  by (auto simp: stat_def split: option.splits)

lemma is_dir_iff: "is_dir fs p \<longleftrightarrow> parent_error fs p = None \<and> lookup fs p = Some Dir"
  by (auto simp: is_dir_def stat_def split: option.splits sum.splits node.splits)

lemma is_file_iff: "is_file fs p \<longleftrightarrow> parent_error fs p = None \<and> (\<exists>b. lookup fs p = Some (File b))"
  by (auto simp: is_file_def stat_def split: option.splits sum.splits node.splits)

lemma read_bytes_iff:
  "read_bytes fs p = Some b \<longleftrightarrow> parent_error fs p = None \<and> lookup fs p = Some (File b)"
  by (auto simp: read_bytes_def stat_def split: option.splits sum.splits node.splits)

lemma path_exists_iff:
  "path_exists fs p \<longleftrightarrow> parent_error fs p = None \<and> lookup fs p \<noteq> None"
  by (auto simp: path_exists_def stat_def split: option.splits sum.splits node.splits)

lemma os_mkdir_cases:
  "os_mkdir p fs = (r, fs') \<Longrightarrow>
     (r = None \<and> parent_error fs p = None \<and> lookup fs p = None \<and> fs' = AList.update p Dir fs)
   \<or> (r \<noteq> None \<and> fs' = fs)"
  by (auto simp: os_mkdir_def split: option.splits)

lemma creates_refl: "creates p fs fs"
  by (simp add: creates_def)

lemma createsD1:
  "creates p fs fs' \<Longrightarrow>
   lookup fs' q = lookup fs q \<or> (prefix q p \<and> lookup fs q = None \<and> lookup fs' q = Some Dir)"
  by (simp add: creates_def)

lemma createsD2:
  "creates p fs fs' \<Longrightarrow> (\<And>q. prefix q p \<Longrightarrow> lookup fs q = None \<Longrightarrow> \<not> P q)
   \<Longrightarrow> filter P (map fst fs') = filter P (map fst fs)"
  unfolding creates_def by blast

lemma createsI:
  assumes "\<And>q. lookup fs' q = lookup fs q \<or> (prefix q p \<and> lookup fs q = None \<and> lookup fs' q = Some Dir)"
    and "\<And>P. (\<And>q. prefix q p \<Longrightarrow> lookup fs q = None \<Longrightarrow> \<not> P q)
           \<Longrightarrow> filter P (map fst fs') = filter P (map fst fs)"
  shows "creates p fs fs'"
  unfolding creates_def using assms by blast

lemma creates_trans:
  assumes "creates p fs fs1" "creates p fs1 fs2"
  shows "creates p fs fs2"
proof (rule createsI)
  fix q
  show "lookup fs2 q = lookup fs q \<or> (prefix q p \<and> lookup fs q = None \<and> lookup fs2 q = Some Dir)"
    using createsD1[OF assms(1), of q] createsD1[OF assms(2), of q] by auto
next
  fix P assume P: "\<And>q. prefix q p \<Longrightarrow> lookup fs q = None \<Longrightarrow> \<not> P q"
  have "filter P (map fst fs1) = filter P (map fst fs)"
    by (rule createsD2[OF assms(1)]) (rule P)
  moreover have "filter P (map fst fs2) = filter P (map fst fs1)"
  proof (rule createsD2[OF assms(2)])
    fix q assume "prefix q p" "lookup fs1 q = None"
    then show "\<not> P q" using createsD1[OF assms(1), of q] P[of q] by auto
  qed
  ultimately show "filter P (map fst fs2) = filter P (map fst fs)" by simp
qed

lemma creates_prefix:
  assumes "creates p fs fs'" "prefix p p'"
  shows "creates p' fs fs'"
proof (rule createsI)
  fix q
  show "lookup fs' q = lookup fs q \<or> (prefix q p' \<and> lookup fs q = None \<and> lookup fs' q = Some Dir)"
    using createsD1[OF assms(1), of q] assms(2) by (auto dest: prefix_order.trans)
next
  fix P assume P: "\<And>q. prefix q p' \<Longrightarrow> lookup fs q = None \<Longrightarrow> \<not> P q"
  show "filter P (map fst fs') = filter P (map fst fs)"
  proof (rule createsD2[OF assms(1)])
    fix q assume "prefix q p" "lookup fs q = None"
    then show "\<not> P q" using P[of q] assms(2) by (auto dest: prefix_order.trans)
  qed
qed

lemma lookup_None_keys: "lookup fs p = None \<Longrightarrow> p \<notin> fst ` set fs"
  by (simp add: lookup_def map_of_eq_None_iff)

lemma creates_update:
  assumes "lookup fs p = None"
  shows "creates p fs (AList.update p Dir fs)"
proof (rule createsI)
  fix q
  show "lookup (AList.update p Dir fs) q = lookup fs q \<or>
        (prefix q p \<and> lookup fs q = None \<and> lookup (AList.update p Dir fs) q = Some Dir)"
    using assms by simp
next
  fix P assume "\<And>q. prefix q p \<Longrightarrow> lookup fs q = None \<Longrightarrow> \<not> P q"
  then have "\<not> P p" using assms by simp
  then show "filter P (map fst (AList.update p Dir fs)) = filter P (map fst fs)"
    using lookup_None_keys[OF assms] by (simp add: update_keys)
qed

lemma parent_error_update [simp]:
  "parent_error (AList.update p v fs) p = parent_error fs p"
  by (rule parent_error_cong) (auto simp: strict_prefix_def)

lemma mkdir_creates:
  "mkdir par True p fs = (r, fs') \<Longrightarrow> creates p fs fs' \<and> (r = None \<longrightarrow> is_dir fs' p)"
proof (induction par "True" p fs arbitrary: r fs' rule: mkdir.induct)
  case (1 parents p fs)
  obtain r0 fs0 where os: "os_mkdir p fs = (r0, fs0)" by (cases "os_mkdir p fs")
  note c = os_mkdir_cases[OF os]
  have unf: "mkdir parents True p fs =
     (case r0 of
        None \<Rightarrow> (None, fs0)
      | Some e \<Rightarrow>
          if e = FileNotFoundError then
            (if \<not> parents \<or> p = [] then (Some FileNotFoundError, fs0)
             else (case mkdir True True (butlast p) fs0 of
                     (None, fs'') \<Rightarrow> mkdir False True p fs''
                   | (Some e, fs'') \<Rightarrow> (Some e, fs'')))
          else (if \<not> is_dir fs0 p then (Some e, fs0) else (None, fs0)))"
    by (subst mkdir.simps) (simp add: os split: error.splits option.splits)
  note res = "1.prems"[unfolded unf]
  show ?case
  proof (cases r0)
    case None
    with c have fs0: "fs0 = AList.update p Dir fs" "parent_error fs p = None" "lookup fs p = None"
      by auto
    from res None have "r = None" "fs' = fs0" by simp_all
    then show ?thesis using fs0 by (simp add: creates_update is_dir_iff)
  next
    case (Some e)
    with c have fs0: "fs0 = fs" by auto
    show ?thesis
    proof (cases "e = FileNotFoundError")
      case True
      show ?thesis
      proof (cases "\<not> parents \<or> p = []")
        case stop: True
        from res Some True stop fs0 have "r = Some FileNotFoundError" "fs' = fs" by auto
        then show ?thesis by (simp add: creates_refl)
      next
        case go: False
        obtain r1 fs1 where m1: "mkdir True True (butlast p) fs0 = (r1, fs1)"
          by (cases "mkdir True True (butlast p) fs0")
        have ih1: "creates (butlast p) fs fs1 \<and> (r1 = None \<longrightarrow> is_dir fs1 (butlast p))"
          using "1.hyps"(1)[OF os[symmetric] Some True go m1] fs0 by simp
        have c1: "creates p fs fs1"
          using ih1 by (auto intro: creates_prefix simp: prefixeq_butlast)
        show ?thesis
        proof (cases r1)
          case None
          have m2: "mkdir False True p fs1 = (r, fs')"
            using res Some True go m1 None by simp
          have "creates p fs1 fs' \<and> (r = None \<longrightarrow> is_dir fs' p)"
            using "1.hyps"(2)[OF os[symmetric] \<open>r0 = Some e\<close> True go m1[symmetric] None m2] .
          then show ?thesis using c1 creates_trans by blast
        next
          case (Some e1)
          have "r = Some e1" "fs' = fs1"
            using res \<open>r0 = Some e\<close> True go m1 Some by auto
          then show ?thesis using c1 by simp
        qed
      qed
    next
      case False
      from res Some False fs0
      have "fs' = fs" "r = None \<longrightarrow> is_dir fs p"
        by (auto split: if_splits)
      then show ?thesis by (simp add: creates_refl)
    qed
  qed
qed

lemma le_fs_refl: "le_fs st s s"
  by (simp add: le_fs_def)

lemma protected_prefix: "protected p \<Longrightarrow> prefix q p \<Longrightarrow> protected q"
  by (auto simp: protected_def prefix_def split: list.splits simp: Cons_eq_append_conv)

lemma le_fs_protected: "le_fs st s t \<Longrightarrow> protected p \<Longrightarrow> lookup t p = lookup s p"
  by (simp add: le_fs_def)

lemma le_fs_stat:
  assumes "le_fs st s t" "protected p"
  shows "stat t p = stat s p"
  by (rule stat_cong) (use assms in \<open>auto dest: protected_prefix le_fs_protected\<close>)

lemma le_fs_keys: "le_fs st s t \<Longrightarrow> filter protected (map fst t) = filter protected (map fst s)"
  by (simp add: le_fs_def)

lemma le_fs_Dir: "le_fs st s t \<Longrightarrow> lookup s p = Some Dir \<Longrightarrow> lookup t p = Some Dir"
  by (simp add: le_fs_def)

lemma le_fs_File: "le_fs st s t \<Longrightarrow> lookup s p = Some (File b) \<Longrightarrow> \<exists>b'. lookup t p = Some (File b')"
  unfolding le_fs_def by blast

lemma le_fs_final:
  "le_fs st s t \<Longrightarrow> lookup s p = Some (File b) \<Longrightarrow> wants st s p b \<Longrightarrow> lookup t p = Some (File b)"
  unfolding le_fs_def by blast

lemma families_protected: "(S, F) \<in> set families \<Longrightarrow> protected (S @ r) \<and> \<not> protected (F @ r')"
  by (auto simp: families_def texture_sources_def webxr_utils_def protected_def old_dirs_def)

lemma families_inj: "(S, F) \<in> set families \<Longrightarrow> (S', F) \<in> set families \<Longrightarrow> S' = S"
  by (auto simp: families_def texture_sources_def)

lemma families_length: "(S, F) \<in> set families \<Longrightarrow> length F = 2"
  by (auto simp: families_def texture_sources_def)

lemma families_head: "(S, F) \<in> set families \<Longrightarrow> hd (F @ r) = ''src'' \<or> hd (F @ r) = ''public''"
  by (auto simp: families_def texture_sources_def)

lemma copy_pair_protected: "copy_pair src dst \<Longrightarrow> protected src"
  by (auto simp: copy_pair_def families_protected)

lemma copy_pair_unprotected: "copy_pair src dst \<Longrightarrow> \<not> protected (dst @ r)"
  using families_protected by (fastforce simp: copy_pair_def)

lemma le_fs_wants:
  assumes "le_fs st s t"
  shows "wants st t p b = wants st s p b"
proof -
  have "read_bytes t src = read_bytes s src" if "copy_pair src dst" for src dst
    using le_fs_stat[OF assms copy_pair_protected[OF that]] by (simp add: read_bytes_def)
  then show ?thesis unfolding wants_def by metis
qed

lemma le_fs_trans:
  assumes "le_fs st s t" "le_fs st t u"
  shows "le_fs st s u"
  unfolding le_fs_def
proof (intro conjI allI impI)
  fix p assume "protected p"
  then show "lookup u p = lookup s p" using assms by (simp add: le_fs_protected)
next
  show "filter protected (map fst u) = filter protected (map fst s)"
    using assms by (simp add: le_fs_keys)
next
  fix p assume "lookup s p = Some Dir"
  then show "lookup u p = Some Dir" using assms by (blast dest: le_fs_Dir)
next
  fix p b assume "lookup s p = Some (File b)"
  then show "\<exists>b'. lookup u p = Some (File b')" using assms by (blast dest: le_fs_File)
next
  fix p b assume a: "lookup s p = Some (File b)" "wants st s p b"
  then have "lookup t p = Some (File b)" using assms(1) by (rule le_fs_final[rotated])
  moreover have "wants st t p b" using a(2) le_fs_wants[OF assms(1)] by simp
  ultimately show "lookup u p = Some (File b)" using assms(2) by (rule le_fs_final[rotated])
qed

lemma le_fs_parent_error:
  "le_fs st s t \<Longrightarrow> parent_error s p = None \<Longrightarrow> parent_error t p = None"
  by (simp add: parent_error_None le_fs_Dir)

lemma le_fs_is_dir: "le_fs st s t \<Longrightarrow> is_dir s p \<Longrightarrow> is_dir t p"
  by (simp add: is_dir_iff le_fs_parent_error le_fs_Dir)

lemma le_fs_based: "le_fs st s t \<Longrightarrow> based s \<Longrightarrow> based t"
  by (simp add: based_def le_fs_Dir)

lemma basename_snoc [simp]: "basename (xs @ [x]) = x"
  by (simp add: basename_def)

lemma basename_last: "r \<noteq> [] \<Longrightarrow> basename (S @ r) = last r"
  by (cases r rule: rev_cases) (simp_all add: basename_def)

lemma file_below_file:
  assumes "read_bytes fs q = Some b" "read_bytes fs (q @ x # xs) = Some b'"
  shows False
proof -
  have "strict_prefix q (q @ x # xs)" by (simp add: strict_prefix_def)
  then have "lookup fs q = Some Dir" using assms(2) by (simp add: read_bytes_iff parent_error_None)
  then show False using assms(1) by (simp add: read_bytes_iff)
qed

lemma copy_target_unique:
  assumes c1: "copy_pair src1 dst1" and c2: "copy_pair src2 dst2"
    and r1: "read_bytes fs src1 = Some b1" and r2: "read_bytes fs src2 = Some b2"
    and p1: "p = dst1 \<or> p = dst1 @ [basename src1]"
    and p2: "p = dst2 \<or> p = dst2 @ [basename src2]"
  shows "src1 = src2"
proof -
  from c1 obtain S1 F1 q1 where 1: "(S1, F1) \<in> set families" "q1 \<noteq> []" "src1 = S1 @ q1" "dst1 = F1 @ q1"
    by (auto simp: copy_pair_def)
  from c2 obtain S2 F2 q2 where 2: "(S2, F2) \<in> set families" "q2 \<noteq> []" "src2 = S2 @ q2" "dst2 = F2 @ q2"
    by (auto simp: copy_pair_def)
  obtain e1 where e1: "p = F1 @ (q1 @ e1)" "e1 = [] \<or> e1 = [last q1]"
    using p1 1 by (auto simp: basename_last)
  obtain e2 where e2: "p = F2 @ (q2 @ e2)" "e2 = [] \<or> e2 = [last q2]"
    using p2 2 by (auto simp: basename_last)
  have "take 2 p = F1" "take 2 p = F2"
    using e1(1) e2(1) families_length[OF 1(1)] families_length[OF 2(1)] by simp_all
  then have F: "F2 = F1" by simp
  then have S: "S2 = S1" using families_inj 1(1) 2(1) by blast
  have eq: "q1 @ e1 = q2 @ e2" using e1(1) e2(1) F by simp
  have "q1 = q2"
  proof (cases "e1 = []")
    case True
    show ?thesis
    proof (cases "e2 = []")
      case True
      with \<open>e1 = []\<close> eq show ?thesis by simp
    next
      case False
      then have "src1 = src2 @ last q2 # []" using eq True e2(2) 1 2 S by simp
      then show ?thesis using file_below_file[OF r2] r1 by blast
    qed
  next
    case False
    show ?thesis
    proof (cases "e2 = []")
      case True
      then have "src2 = src1 @ last q1 # []" using eq False e1(2) 1 2 S by simp
      then show ?thesis using file_below_file[OF r1] r2 by blast
    next
      case ne2: False
      with False eq e1(2) e2(2) show ?thesis by simp
    qed
  qed
  then show ?thesis using 1 2 S by simp
qed

lemma wants_unique:
  assumes "statics_ok st" "wants st fs p b" "wants st fs p b'"
  shows "b = b'"
proof -
  have static_not_target: False
    if m: "map_of st p = Some c" and cp: "copy_pair src dst" and pp: "p = dst \<or> p = dst @ [x]"
    for c src dst x
  proof -
    from m have "(p, c) \<in> set st" by (rule map_of_SomeD)
    then have "hd p \<noteq> ''src''" "hd p \<noteq> ''public''" using assms(1) by (auto simp: statics_ok_def)
    moreover obtain S F r where "(S, F) \<in> set families" "r \<noteq> []" "dst = F @ r"
      using cp by (auto simp: copy_pair_def)
    then have "hd p = ''src'' \<or> hd p = ''public''"
      using pp families_head[of S F r] families_head[of S F "r @ [x]"] by auto
    ultimately show False by simp
  qed
  from assms(2) consider (stat1) "map_of st p = Some b"
    | (copy1) src dst where "copy_pair src dst" "read_bytes fs src = Some b"
        "p = dst \<or> p = dst @ [basename src]"
    unfolding wants_def by blast
  then show ?thesis
  proof cases
    case stat1
    from assms(3) consider (stat2) "map_of st p = Some b'"
      | (copy2) src' dst' where "copy_pair src' dst'" "read_bytes fs src' = Some b'"
          "p = dst' \<or> p = dst' @ [basename src']"
      unfolding wants_def by blast
    then show ?thesis
    proof cases
      case stat2
      with stat1 show ?thesis by simp
    next
      case copy2
      then show ?thesis using static_not_target[OF stat1] by blast
    qed
  next
    case copy1
    from assms(3) consider (stat2) "map_of st p = Some b'"
      | (copy2) src' dst' where "copy_pair src' dst'" "read_bytes fs src' = Some b'"
          "p = dst' \<or> p = dst' @ [basename src']"
      unfolding wants_def by blast
    then show ?thesis
    proof cases
      case stat2
      then show ?thesis using static_not_target[OF stat2] copy1 by blast
    next
      case copy2
      have "src = src'"
        by (rule copy_target_unique[OF copy1(1) copy2(1) copy1(2) copy2(2) copy1(3) copy2(3)])
      then show ?thesis using copy1(2) copy2(2) by simp
    qed
  qed
qed

lemma goodI:
  assumes "\<And>s r s'. based s \<Longrightarrow> A s = (r, s') \<Longrightarrow> le_fs st s s'"
    and "\<And>s s' t. based s \<Longrightarrow> A s = (None, s') \<Longrightarrow> le_fs st s' t \<Longrightarrow> A t = (None, t)"
    and "\<And>s e s'. based s \<Longrightarrow> A s = (Some e, s') \<Longrightarrow> \<exists>e'. A s' = (Some e', s')"
  shows "good st A"
  unfolding good_def using assms by blast

lemma good_le: "good st A \<Longrightarrow> based s \<Longrightarrow> A s = (r, s') \<Longrightarrow> le_fs st s s'"
  unfolding good_def by blast

lemma good_again: "good st A \<Longrightarrow> based s \<Longrightarrow> A s = (None, s') \<Longrightarrow> le_fs st s' t \<Longrightarrow> A t = (None, t)"
  unfolding good_def by blast

lemma good_fail: "good st A \<Longrightarrow> based s \<Longrightarrow> A s = (Some e, s') \<Longrightarrow> \<exists>e'. A s' = (Some e', s')"
  unfolding good_def by blast

lemma good_skip: "good st (\<lambda>s. (None, s))"
  by (rule goodI) (auto simp: le_fs_refl)

lemma good_seq:
  assumes A: "good st A" and B: "good st B"
  shows "good st (seq A B)"
proof (rule goodI)
  fix s r s' assume s: "based s" and run: "seq A B s = (r, s')"
  obtain ra sa where a: "A s = (ra, sa)" by (cases "A s")
  have la: "le_fs st s sa" by (rule good_le[OF A s a])
  show "le_fs st s s'"
  proof (cases ra)
    case None
    with run a have "B sa = (r, s')" by (simp add: seq_def)
    then have "le_fs st sa s'" using good_le[OF B le_fs_based[OF la s]] by blast
    with la show ?thesis by (rule le_fs_trans)
  next
    case (Some e)
    with run a la show ?thesis by (simp add: seq_def)
  qed
next
  fix s s' t assume s: "based s" and run: "seq A B s = (None, s')" and t: "le_fs st s' t"
  obtain ra sa where a: "A s = (ra, sa)" by (cases "A s")
  with run have ra: "ra = None" and b: "B sa = (None, s')"
    by (auto simp: seq_def split: option.splits)
  have la: "le_fs st s sa" by (rule good_le[OF A s a])
  have sa: "based sa" by (rule le_fs_based[OF la s])
  have lb: "le_fs st sa s'" by (rule good_le[OF B sa b])
  have "A t = (None, t)"
    by (rule good_again[OF A s a[unfolded ra]]) (rule le_fs_trans[OF lb t])
  moreover have "B t = (None, t)" by (rule good_again[OF B sa b t])
  ultimately show "seq A B t = (None, t)" by (simp add: seq_def)
next
  fix s e s' assume s: "based s" and run: "seq A B s = (Some e, s')"
  obtain ra sa where a: "A s = (ra, sa)" by (cases "A s")
  have la: "le_fs st s sa" by (rule good_le[OF A s a])
  have sa: "based sa" by (rule le_fs_based[OF la s])
  show "\<exists>e'. seq A B s' = (Some e', s')"
  proof (cases ra)
    case None
    with run a have b: "B sa = (Some e, s')" by (simp add: seq_def)
    have lb: "le_fs st sa s'" by (rule good_le[OF B sa b])
    have "A s' = (None, s')" by (rule good_again[OF A s a[unfolded None] lb])
    moreover obtain e' where "B s' = (Some e', s')" using good_fail[OF B sa b] by blast
    ultimately show ?thesis by (simp add: seq_def)
  next
    case (Some ea)
    with run a have "s' = sa" by (simp add: seq_def)
    then obtain e' where "A s' = (Some e', s')" using good_fail[OF A s a[unfolded Some]] by blast
    then show ?thesis by (simp add: seq_def)
  qed
qed

lemma for_each_Cons_seq: "for_each (x # xs) body = seq (body x) (for_each xs body)"
  by (rule ext) (simp add: seq_def)

lemma good_for_each:
  assumes "\<And>x. x \<in> set xs \<Longrightarrow> good st (body x)"
  shows "good st (for_each xs body)"
  using assms
proof (induction xs)
  case Nil
  have "for_each [] body = (\<lambda>s. (None, s))" by (rule ext) simp
  then show ?case by (simp add: good_skip)
next
  case (Cons x xs)
  show ?case unfolding for_each_Cons_seq
    by (rule good_seq) (use Cons in auto)
qed

text \<open>A branch or a loop whose guard or list is read from the protected part.\<close>

lemma good_dep:
  assumes F: "\<And>s. good st (F (g s))"
    and g: "\<And>s t. le_fs st s t \<Longrightarrow> g t = g s"
  shows "good st (\<lambda>s. F (g s) s)"
proof (rule goodI)
  fix s r s' assume "based s" "F (g s) s = (r, s')"
  then show "le_fs st s s'" using good_le[OF F] by blast
next
  fix s s' t assume s: "based s" and run: "F (g s) s = (None, s')" and t: "le_fs st s' t"
  have "le_fs st s s'" by (rule good_le[OF F s run])
  then have "g t = g s" using g le_fs_trans[OF _ t] by blast
  then show "F (g t) t = (None, t)" using good_again[OF F s run t] by simp
next
  fix s e s' assume s: "based s" and run: "F (g s) s = (Some e, s')"
  have "le_fs st s s'" by (rule good_le[OF F s run])
  then have "g s' = g s" by (rule g)
  then show "\<exists>e'. F (g s') s' = (Some e', s')" using good_fail[OF F s run] by simp
qed

lemma good_if:
  assumes A: "good st A" and g: "\<And>s t. le_fs st s t \<Longrightarrow> c t = c s"
  shows "good st (\<lambda>s. if c s then A s else (None, s))"
proof -
  have "good st (\<lambda>s. (if c s then A else (\<lambda>s. (None, s))) s)"
    by (rule good_dep[where F = "\<lambda>b. if b then A else (\<lambda>s. (None, s))" and g = c])
       (simp_all add: A good_skip g)
  moreover have "(\<lambda>s. (if c s then A else (\<lambda>s. (None, s))) s) = (\<lambda>s. if c s then A s else (None, s))"
    by (rule ext) simp
  ultimately show ?thesis by simp
qed

lemma protected_prefix_unprotected:
  assumes "\<not> protected p" "prefix q p" "protected q"
  shows "q = []"
  using assms by (cases q; cases p) (auto simp: protected_def)

lemma le_fs_creates:
  assumes s: "based s" and c: "creates p s s'" and p: "\<not> protected p"
  shows "le_fs st s s'"
proof -
  have kept: "lookup s' q = lookup s q" if "lookup s q \<noteq> None" for q
    using createsD1[OF c, of q] that by auto
  have prot: "lookup s q \<noteq> None" if "prefix q p" "protected q" for q
    using protected_prefix_unprotected[OF p that] s by (simp add: based_def)
  show ?thesis
    unfolding le_fs_def
  proof (intro conjI allI impI)
    fix q assume "protected q"
    then show "lookup s' q = lookup s q" using createsD1[OF c, of q] prot[of q] by auto
  next
    show "filter protected (map fst s') = filter protected (map fst s)"
      by (rule createsD2[OF c]) (use prot in blast)
  qed (simp_all add: kept)
qed

lemma write_text_cases:
  "write_text p c s = (r, s') \<Longrightarrow>
     (r = None \<and> parent_error s p = None \<and> lookup s p \<noteq> Some Dir \<and> s' = AList.update p (File c) s)
   \<or> (r \<noteq> None \<and> s' = s)"
  by (auto simp: write_text_def split: option.splits node.splits)

lemma le_fs_update_file:
  assumes st: "statics_ok st" and p: "\<not> protected p" and nd: "lookup s p \<noteq> Some Dir"
    and w: "wants st s p c"
  shows "le_fs st s (AList.update p (File c) s)"
  unfolding le_fs_def
proof (intro conjI allI impI)
  fix q assume "protected q"
  then show "lookup (AList.update p (File c) s) q = lookup s q" using p by auto
next
  show "filter protected (map fst (AList.update p (File c) s)) = filter protected (map fst s)"
    using p by (simp add: update_keys)
next
  fix q assume "lookup s q = Some Dir"
  then show "lookup (AList.update p (File c) s) q = Some Dir" using nd by auto
next
  fix q b assume "lookup s q = Some (File b)"
  then show "\<exists>b'. lookup (AList.update p (File c) s) q = Some (File b')" by simp
next
  fix q b assume "lookup s q = Some (File b)" "wants st s q b"
  then show "lookup (AList.update p (File c) s) q = Some (File b)"
    using wants_unique[OF st _ w, of b] by auto
qed

lemma write_text_props:
  assumes st: "statics_ok st" and p: "\<not> protected p" and w: "wants st s p c"
    and run: "write_text p c s = (r, s')"
  shows "le_fs st s s'"
    and "r = None \<Longrightarrow> le_fs st s' t \<Longrightarrow> write_text p c t = (None, t)"
    and "r \<noteq> None \<Longrightarrow> s' = s"
    and "r = None \<Longrightarrow> lookup s' p = Some (File c) \<and> parent_error s' p = None"
proof -
  note c = write_text_cases[OF run]
  show le: "le_fs st s s'"
    using c le_fs_update_file[OF st p _ w] by (auto simp: le_fs_refl)
  show "r \<noteq> None \<Longrightarrow> s' = s" using c by auto
  show post: "lookup s' p = Some (File c) \<and> parent_error s' p = None" if "r = None"
    using c that by auto
  show "write_text p c t = (None, t)" if r: "r = None" and t: "le_fs st s' t"
  proof -
    have "wants st s' p c" using w le_fs_wants[OF le] by simp
    then have "lookup t p = Some (File c)" using post[OF r] le_fs_final[OF t] by blast
    moreover have "parent_error t p = None" using post[OF r] le_fs_parent_error[OF t] by blast
    ultimately show ?thesis by (simp add: write_text_def update_same)
  qed
qed

lemma good_write_text:
  assumes st: "statics_ok st" and p: "\<not> protected p" and w: "map_of st p = Some c"
  shows "good st (write_text p c)"
proof (rule goodI)
  have w: "wants st s p c" for s using w by (simp add: wants_def)
  fix s r s' assume "write_text p c s = (r, s')"
  then show "le_fs st s s'" by (rule write_text_props(1)[OF st p w])
next
  have w: "wants st s p c" for s using w by (simp add: wants_def)
  fix s s' t assume "write_text p c s = (None, s')" "le_fs st s' t"
  then show "write_text p c t = (None, t)" using write_text_props(2)[OF st p w] by blast
next
  have w: "wants st s p c" for s using w by (simp add: wants_def)
  fix s e s' assume run: "write_text p c s = (Some e, s')"
  then have "s' = s" using write_text_props(3)[OF st p w run] by simp
  with run show "\<exists>e'. write_text p c s' = (Some e', s')" by simp
qed

lemma copy2_cases:
  assumes cp: "copy_pair src dst" and run: "copy2 src dst s = (r, s')"
  shows "(\<exists>b. read_bytes s src = Some b
            \<and> write_text (if is_dir s dst then dst @ [basename src] else dst) b s = (r, s'))
       \<or> (r \<noteq> None \<and> s' = s)"
proof -
  let ?d = "if is_dir s dst then dst @ [basename src] else dst"
  have "src \<noteq> ?d"
    using copy_pair_protected[OF cp] copy_pair_unprotected[OF cp, of "[]"]
      copy_pair_unprotected[OF cp, of "[basename src]"] by auto
  then have eq: "copy2 src dst s =
      (case stat s src of Inl e \<Rightarrow> (Some e, s) | Inr Dir \<Rightarrow> (Some IsADirectoryError, s)
       | Inr (File b) \<Rightarrow> write_text ?d b s)"
    by (simp add: copy2_def Let_def)
  show ?thesis
  proof (cases "stat s src")
    case (Inl e)
    with eq run show ?thesis by simp
  next
    case (Inr n)
    show ?thesis
    proof (cases n)
      case (File b)
      with Inr have "read_bytes s src = Some b" by (simp add: read_bytes_def)
      with eq run Inr File show ?thesis by simp
    next
      case Dir
      with eq run Inr show ?thesis by simp
    qed
  qed
qed

lemma good_copy2:
  assumes st: "statics_ok st" and cp: "copy_pair src dst"
  shows "good st (copy2 src dst)"
proof (rule goodI)
  fix s r s' assume run: "copy2 src dst s = (r, s')"
  let ?d = "if is_dir s dst then dst @ [basename src] else dst"
  have np: "\<not> protected ?d"
    using copy_pair_unprotected[OF cp, of "[]"] copy_pair_unprotected[OF cp, of "[basename src]"]
    by auto
  from copy2_cases[OF cp run] show "le_fs st s s'"
  proof
    assume "\<exists>b. read_bytes s src = Some b \<and> write_text ?d b s = (r, s')"
    then obtain b where b: "read_bytes s src = Some b" "write_text ?d b s = (r, s')" by blast
    have "wants st s ?d b" unfolding wants_def using cp b(1) by auto
    then show ?thesis using write_text_props(1)[OF st np _ b(2)] by blast
  next
    assume "r \<noteq> None \<and> s' = s"
    then show ?thesis by (simp add: le_fs_refl)
  qed
next
  fix s s' t assume run: "copy2 src dst s = (None, s')" and t: "le_fs st s' t"
  let ?d = "if is_dir s dst then dst @ [basename src] else dst"
  have np: "\<not> protected ?d"
    using copy_pair_unprotected[OF cp, of "[]"] copy_pair_unprotected[OF cp, of "[basename src]"]
    by auto
  from copy2_cases[OF cp run] obtain b where b: "read_bytes s src = Some b"
    "write_text ?d b s = (None, s')" by blast
  have w: "wants st s ?d b" unfolding wants_def using cp b(1) by auto
  note props = write_text_props[OF st np w b(2)]
  have rt: "read_bytes t src = Some b"
    using le_fs_stat[OF le_fs_trans[OF props(1) t] copy_pair_protected[OF cp]] b(1)
    by (simp add: read_bytes_def)
  have same: "is_dir t dst = is_dir s dst"
  proof (cases "is_dir s dst")
    case True
    then show ?thesis using le_fs_is_dir[OF le_fs_trans[OF props(1) t]] by simp
  next
    case False
    then have "lookup s' dst = Some (File b)" using props(4) by simp
    then have "\<exists>b'. lookup t dst = Some (File b')" using le_fs_File[OF t] by blast
    then show ?thesis using False by (auto simp: is_dir_iff)
  qed
  have wt: "write_text ?d b t = (None, t)" using props(2)[OF _ t] by simp
  have "src \<noteq> ?d" using copy_pair_protected[OF cp] np by auto
  then show "copy2 src dst t = (None, t)"
    using rt same wt by (auto simp: copy2_def Let_def read_bytes_def split: sum.splits node.splits)
next
  fix s e s' assume run: "copy2 src dst s = (Some e, s')"
  from copy2_cases[OF cp run] have "s' = s"
  proof
    assume "\<exists>b. read_bytes s src = Some b \<and>
       write_text (if is_dir s dst then dst @ [basename src] else dst) b s = (Some e, s')"
    then show ?thesis using write_text_cases by blast
  qed simp
  with run show "\<exists>e'. copy2 src dst s' = (Some e', s')" by simp
qed

lemma mkdir_unfold:
  "mkdir par True p s =
     (case os_mkdir p s of
        (None, s0) \<Rightarrow> (None, s0)
      | (Some e, s0) \<Rightarrow>
          if e = FileNotFoundError then
            (if \<not> par \<or> p = [] then (Some FileNotFoundError, s0)
             else (case mkdir True True (butlast p) s0 of
                     (None, s2) \<Rightarrow> mkdir False True p s2
                   | (Some e, s2) \<Rightarrow> (Some e, s2)))
          else (if \<not> is_dir s0 p then (Some e, s0) else (None, s0)))"
  by (subst mkdir.simps) (simp split: prod.splits error.splits option.splits)

lemma os_mkdir_existing: "is_dir s p \<Longrightarrow> os_mkdir p s = (Some FileExistsError, s)"
  by (simp add: os_mkdir_def is_dir_iff)

lemma mkdir_existing: "is_dir s p \<Longrightarrow> mkdir par True p s = (None, s)"
  by (subst mkdir_unfold) (simp add: os_mkdir_existing)

lemma os_mkdir_fail_same: "os_mkdir p s = (Some e, s0) \<Longrightarrow> s0 = s"
  by (auto simp: os_mkdir_def split: option.splits)

lemma mkdir_False_fail: "mkdir False True p s = (Some e, s') \<Longrightarrow> s' = s"
  by (subst (asm) mkdir_unfold)
     (auto split: prod.splits option.splits if_splits dest: os_mkdir_fail_same)

lemma is_dir_parent_error:
  assumes "p \<noteq> []" "is_dir s (butlast p)"
  shows "parent_error s p = None"
  unfolding parent_error_None
proof (intro allI impI)
  fix q assume "strict_prefix q p"
  then have "prefix q (butlast p)"
    using assms(1) by (metis append_butlast_last_id prefix_snoc strict_prefix_def)
  then have "q = butlast p \<or> strict_prefix q (butlast p)" by (auto simp: strict_prefix_def)
  then show "lookup s q = Some Dir" using assms(2) by (auto simp: is_dir_iff parent_error_None)
qed

lemma parent_error_is_dir:
  assumes "p \<noteq> []" "parent_error s p = None"
  shows "is_dir s (butlast p)"
proof -
  have sp: "strict_prefix (butlast p) p"
    using assms(1) by (metis append_butlast_last_id not_Cons_self2 prefixI self_append_conv strict_prefix_def)
  have "parent_error s (butlast p) = None"
    unfolding parent_error_None using assms(2) sp
    by (auto simp: parent_error_None dest: prefix_order.less_trans)
  then show ?thesis using assms(2) sp by (simp add: is_dir_iff parent_error_None)
qed

lemma os_mkdir_FileNotFound:
  "os_mkdir p s = (Some FileNotFoundError, s0) \<Longrightarrow> parent_error s p \<noteq> None"
  by (auto simp: os_mkdir_def split: option.splits)

lemma os_mkdir_None: "os_mkdir p s = (None, s0) \<Longrightarrow> parent_error s p = None"
  by (auto simp: os_mkdir_def split: option.splits)

lemma is_dir_is_parent: "is_dir s p \<Longrightarrow> parent_error s p = None"
  by (simp add: is_dir_iff)

lemma mkdir_fail_again:
  "mkdir par True p s = (Some e, s') \<Longrightarrow> \<exists>e'. mkdir par True p s' = (Some e', s')"
proof (induction par "True" p s arbitrary: e s' rule: mkdir.induct)
  case (1 parents p s)
  obtain r0 s0 where os: "os_mkdir p s = (r0, s0)" by (cases "os_mkdir p s")
  have res: "(case r0 of
        None \<Rightarrow> (None, s0)
      | Some e \<Rightarrow>
          if e = FileNotFoundError then
            (if \<not> parents \<or> p = [] then (Some FileNotFoundError, s0)
             else (case mkdir True True (butlast p) s0 of
                     (None, s2) \<Rightarrow> mkdir False True p s2
                   | (Some e, s2) \<Rightarrow> (Some e, s2)))
          else (if \<not> is_dir s0 p then (Some e, s0) else (None, s0))) = (Some e, s')"
    using "1.prems" by (subst (asm) mkdir_unfold) (simp add: os)
  show ?case
  proof (cases r0)
    case None
    with res show ?thesis by simp
  next
    case (Some e0)
    then have s0: "s0 = s" using os os_mkdir_fail_same by blast
    show ?thesis
    proof (cases "e0 = FileNotFoundError \<and> parents \<and> p \<noteq> []")
      case False
      then have "s' = s" using res Some s0 by (auto split: if_splits)
      then show ?thesis using "1.prems" by simp
    next
      case True
      obtain r1 s1 where m1: "mkdir True True (butlast p) s0 = (r1, s1)"
        by (cases "mkdir True True (butlast p) s0")
      show ?thesis
      proof (cases r1)
        case None
        with res Some True m1 have m2: "mkdir False True p s1 = (Some e, s')" by simp
        then have s': "s' = s1" by (rule mkdir_False_fail)
        have "is_dir s1 (butlast p)" using mkdir_creates[OF m1] None by simp
        then have pe: "parent_error s1 p = None" using True is_dir_parent_error by blast
        obtain r2 s2 where os2: "os_mkdir p s1 = (r2, s2)" by (cases "os_mkdir p s1")
        have "r2 \<noteq> Some FileNotFoundError" using os2 pe by (auto dest: os_mkdir_FileNotFound)
        then have "mkdir parents True p s1 = mkdir False True p s1"
          by (subst mkdir_unfold, subst (2) mkdir_unfold) (simp add: os2 split: option.splits)
        then show ?thesis using m2 s' by simp
      next
        case (Some e1)
        with res \<open>r0 = Some e0\<close> True m1 have r: "e = e1" "s' = s1" by simp_all
        have "\<exists>e'. mkdir True True (butlast p) s1 = (Some e', s1)"
          using "1.hyps"(1)[OF os[symmetric] \<open>r0 = Some e0\<close> _ _ m1[unfolded Some]] True by simp
        then obtain e' where again: "mkdir True True (butlast p) s1 = (Some e', s1)" by blast
        have npe: "parent_error s1 p \<noteq> None"
        proof
          assume "parent_error s1 p = None"
          then have "is_dir s1 (butlast p)" using True parent_error_is_dir by blast
          then show False using again mkdir_existing by simp
        qed
        obtain r2 s2 where os2: "os_mkdir p s1 = (r2, s2)" by (cases "os_mkdir p s1")
        have "r2 \<noteq> None" using os2 npe by (cases r2) (auto dest: os_mkdir_None)
        then obtain e2 where e2: "r2 = Some e2" by blast
        then have s2: "s2 = s1" using os2 os_mkdir_fail_same by blast
        have "\<not> is_dir s1 p" using npe by (auto simp: is_dir_iff)
        then have "\<exists>e'. mkdir parents True p s1 = (Some e', s1)"
          using True again by (subst mkdir_unfold) (simp add: os2 e2 s2)
        then show ?thesis using r by simp
      qed
    qed
  qed
qed

lemma good_mkdir:
  assumes p: "\<not> protected p"
  shows "good st (mkdir par True p)"
proof (rule goodI)
  fix s r s' assume "based s" "mkdir par True p s = (r, s')"
  then show "le_fs st s s'" using le_fs_creates[OF _ _ p] mkdir_creates by blast
next
  fix s s' t assume "mkdir par True p s = (None, s')" "le_fs st s' t"
  then have "is_dir t p" using mkdir_creates le_fs_is_dir by blast
  then show "mkdir par True p t = (None, t)" by (rule mkdir_existing)
next
  fix s e s' assume "mkdir par True p s = (Some e, s')"
  then show "\<exists>e'. mkdir par True p s' = (Some e', s')" by (rule mkdir_fail_again)
qed

section \<open>Every step of the scripts is repeatable\<close>

lemma statics_ok_clean: "statics_ok clean_statics"
  by (simp add: statics_ok_def clean_statics_def old_dirs_def)

lemma statics_ok_restructure: "statics_ok restructure_statics"
  by (simp add: statics_ok_def restructure_statics_def old_dirs_def)

lemma le_fs_path_exists: "le_fs st s t \<Longrightarrow> protected p \<Longrightarrow> path_exists t p = path_exists s p"
  by (simp add: path_exists_def le_fs_stat)

lemma le_fs_is_file: "le_fs st s t \<Longrightarrow> protected p \<Longrightarrow> is_file t p = is_file s p"
  by (simp add: is_file_def le_fs_stat)

lemma protected_extend: "protected S \<Longrightarrow> S \<noteq> [] \<Longrightarrow> protected (S @ r)"
  by (cases S) (auto simp: protected_def)

lemma rglob_items:
  "item \<in> set (rglob s S) \<Longrightarrow> \<exists>r. r \<noteq> [] \<and> item = S @ r \<and> path_exists s item"
  by (auto simp: rglob_def strict_prefix_def prefix_def)

lemma le_fs_rglob:
  assumes le: "le_fs st s t" and S: "protected S" "S \<noteq> []"
  shows "rglob t S = rglob s S"
proof -
  let ?Q = "\<lambda>u p. strict_prefix S p \<and> path_exists u p"
  have prot: "protected p" if "strict_prefix S p" for p
    using that S by (auto simp: strict_prefix_def prefix_def protected_extend)
  have Q: "?Q u p \<longleftrightarrow> protected p \<and> ?Q u p" for u p using prot by blast
  have "rglob u S = filter (?Q u) (remdups (filter protected (map fst u)))" for u
  proof -
    have "filter (?Q u) (remdups (map fst u)) = filter (\<lambda>p. protected p \<and> ?Q u p) (remdups (map fst u))"
      using Q by (intro filter_cong) auto
    also have "\<dots> = filter (?Q u) (filter protected (remdups (map fst u)))"
      by (simp add: conj_commute)
    finally show ?thesis by (simp add: rglob_def remdups_filter)
  qed
  moreover have "filter (?Q t) xs = filter (?Q s) xs" for xs
    by (intro filter_cong) (auto simp: le_fs_path_exists[OF le prot])
  ultimately show ?thesis using le_fs_keys[OF le] by simp
qed

lemma good_create_directory_structure: "good st create_directory_structure"
  unfolding create_directory_structure_def
  by (rule good_for_each)
     (auto simp: new_structure_def protected_def old_dirs_def
           intro!: good_seq good_for_each good_mkdir)

lemma copy_pair_component: "copy_pair [''Campus-Tour-NYUAD-main'', c] [''src'', ''components'', c]"
  unfolding copy_pair_def families_def
  by (auto intro!: exI[of _ "[c]"])

lemma copy_pair_util: "copy_pair (webxr_utils @ [u]) [''src'', ''utils'', u]"
  unfolding copy_pair_def families_def
  by (auto intro!: exI[of _ "[u]"])

lemma copy_pair_media:
  "(S, D) \<in> set texture_sources \<Longrightarrow> r \<noteq> [] \<Longrightarrow> copy_pair (S @ r) (D @ r)"
  unfolding copy_pair_def families_def
  by (rule bexI[of _ "(S, D)"]) auto

lemma good_copy_component:
  assumes st: "statics_ok st"
  shows "good st (copy_component c)"
proof -
  have "good st (\<lambda>s. if path_exists s [''Campus-Tour-NYUAD-main'', c]
          then copy2 [''Campus-Tour-NYUAD-main'', c] [''src'', ''components'', c] s else (None, s))"
    by (rule good_if[OF good_copy2[OF st copy_pair_component]])
       (simp add: le_fs_path_exists copy_pair_protected[OF copy_pair_component])
  moreover have "copy_component c = (\<lambda>s. if path_exists s [''Campus-Tour-NYUAD-main'', c]
          then copy2 [''Campus-Tour-NYUAD-main'', c] [''src'', ''components'', c] s else (None, s))"
    by (rule ext) (simp add: copy_component_def)
  ultimately show ?thesis by simp
qed

lemma good_copy_util:
  assumes st: "statics_ok st"
  shows "good st (copy_util u)"
proof -
  have "good st (\<lambda>s. if path_exists s (webxr_utils @ [u])
          then copy2 (webxr_utils @ [u]) [''src'', ''utils'', u] s else (None, s))"
    by (rule good_if[OF good_copy2[OF st copy_pair_util]])
       (simp add: le_fs_path_exists copy_pair_protected[OF copy_pair_util])
  moreover have "copy_util u = (\<lambda>s. if path_exists s (webxr_utils @ [u])
          then copy2 (webxr_utils @ [u]) [''src'', ''utils'', u] s else (None, s))"
    by (rule ext) (simp add: copy_util_def)
  ultimately show ?thesis by simp
qed

lemma texture_sources_protected:
  "(S, D) \<in> set texture_sources \<Longrightarrow> protected S \<and> S \<noteq> [] \<and> \<not> protected (D @ r)"
  by (auto simp: texture_sources_def protected_def old_dirs_def)

lemma good_copy_item:
  assumes st: "statics_ok st" and SD: "(S, D) \<in> set texture_sources" and r: "r \<noteq> []"
  shows "good st (copy_item S D (S @ r))"
proof -
  let ?A = "seq (mkdir True True (butlast (D @ r))) (copy2 (S @ r) (D @ r))"
  have bl: "butlast (D @ r) = D @ butlast r" using r by (simp add: butlast_append)
  have "good st ?A"
    by (rule good_seq[OF good_mkdir good_copy2[OF st copy_pair_media[OF SD r]]])
       (simp add: bl texture_sources_protected[OF SD])
  then have "good st (\<lambda>s. if is_file s (S @ r) then ?A s else (None, s))"
    by (rule good_if)
       (simp add: le_fs_is_file protected_extend texture_sources_protected[OF SD])
  moreover have "copy_item S D (S @ r) = (\<lambda>s. if is_file s (S @ r) then ?A s else (None, s))"
    by (rule ext) (simp add: copy_item_def relative_to_def Let_def)
  ultimately show ?thesis by simp
qed

lemma good_media_loop:
  assumes st: "statics_ok st" and SD: "(S, D) \<in> set texture_sources"
  shows "good st (\<lambda>s. if path_exists s S then for_each (rglob s S) (copy_item S D) s else (None, s))"
proof -
  let ?F = "\<lambda>(b, items). if b then for_each items (copy_item S D) else (\<lambda>s. (None, s))"
  let ?g = "\<lambda>s. (path_exists s S, rglob s S)"
  note P = texture_sources_protected[OF SD, of "[]"]
  have "good st (\<lambda>s. ?F (?g s) s)"
  proof (rule good_dep[where F = ?F and g = ?g])
    fix s
    have "good st (for_each (rglob s S) (copy_item S D))"
      by (rule good_for_each) (use rglob_items good_copy_item[OF st SD] in blast)
    then show "good st (?F (?g s))" by (simp add: good_skip)
  next
    fix s t assume "le_fs st s t"
    then show "?g t = ?g s" using P by (simp add: le_fs_path_exists le_fs_rglob)
  qed
  moreover have "(\<lambda>s. ?F (?g s) s)
      = (\<lambda>s. if path_exists s S then for_each (rglob s S) (copy_item S D) s else (None, s))"
    by (rule ext) simp
  ultimately show ?thesis by simp
qed

lemma good_move_media_files:
  assumes st: "statics_ok st"
  shows "good st move_media_files"
  unfolding move_media_files_def
  by (rule good_for_each) (use good_media_loop[OF st] in auto)

lemma good_move_assets:
  assumes st: "statics_ok st"
  shows "good st move_assets"
  unfolding move_assets_def
proof (intro good_seq good_for_each good_copy_component[OF st] good_move_media_files[OF st])
  show "good st (\<lambda>fs. if path_exists fs webxr_utils then for_each util_files copy_util fs
                       else (None, fs))"
    by (rule good_if[OF good_for_each[OF good_copy_util[OF st]]])
       (simp add: le_fs_path_exists protected_def webxr_utils_def old_dirs_def)
qed

lemma good_clean_create_config_files: "good clean_statics clean_create_config_files"
  unfolding clean_create_config_files_def
  by (intro good_seq good_write_text[OF statics_ok_clean])
     (simp_all add: protected_def clean_statics_def old_dirs_def)

lemma good_clean_create_documentation: "good clean_statics clean_create_documentation"
  unfolding clean_create_documentation_def
  by (intro good_seq good_write_text[OF statics_ok_clean] good_mkdir)
     (simp_all add: protected_def clean_statics_def old_dirs_def)

lemma good_create_index_html: "good st create_index_html"
proof -
  have "create_index_html = (\<lambda>fs. (None, fs))"
    by (rule ext) (simp add: create_index_html_def)
  then show ?thesis using good_skip[of st] by (simp only:)
qed

lemma good_cleanup_old_files: "good st (\<lambda>fs. (None, snd (cleanup_old_files fs)))"
  by (simp add: cleanup_old_files_def good_skip)

lemma good_clean_run: "good clean_statics clean_run"
  unfolding clean_run_def
  by (intro good_seq good_create_directory_structure
      good_move_assets[OF statics_ok_clean] good_clean_create_config_files
      good_clean_create_documentation good_create_index_html good_cleanup_old_files)

lemma good_restructure_create_config_files:
  "good restructure_statics restructure_create_config_files"
  unfolding restructure_create_config_files_def
  by (intro good_seq good_write_text[OF statics_ok_restructure])
     (simp_all add: protected_def restructure_statics_def old_dirs_def)

lemma good_restructure_create_documentation:
  "good restructure_statics restructure_create_documentation"
  unfolding restructure_create_documentation_def
  by (intro good_write_text[OF statics_ok_restructure])
     (simp_all add: protected_def restructure_statics_def old_dirs_def)

lemma good_restructure_run: "good restructure_statics restructure_run"
  unfolding restructure_run_def
  by (intro good_seq good_create_directory_structure
      good_move_assets[OF statics_ok_restructure] good_restructure_create_config_files
      good_restructure_create_documentation)

lemma unbased_mkdir:
  assumes "\<not> based s"
  shows "\<exists>e. mkdir False True [c] s = (Some e, s)"
proof -
  have pe: "parent_error s [c] \<noteq> None"
    using assms by (auto simp: parent_error_def based_def split: option.splits node.splits)
  then obtain e where e: "os_mkdir [c] s = (Some e, s)"
    by (auto simp: os_mkdir_def split: option.splits)
  have "\<not> is_dir s [c]" using pe by (simp add: is_dir_iff)
  then show ?thesis by (subst mkdir_unfold) (simp add: e)
qed

lemma unbased_create_directory_structure:
  assumes "\<not> based s"
  shows "\<exists>e. create_directory_structure s = (Some e, s)"
proof -
  obtain e where "mkdir False True [''public''] s = (Some e, s)"
    using unbased_mkdir[OF assms] by blast
  then show ?thesis
    by (simp add: create_directory_structure_def new_structure_def seq_def)
qed

section \<open>The stages of a run that completes\<close>

lemma seq_NoneE:
  assumes "seq A B s = (None, s')"
  obtains s1 where "A s = (None, s1)" "B s1 = (None, s')"
  using assms by (auto simp: seq_def split: prod.splits option.splits)

lemma for_each_inv:
  assumes "I s"
    and "\<And>y u r u'. y \<in> set xs \<Longrightarrow> I u \<Longrightarrow> body y u = (r, u') \<Longrightarrow> I u'"
  shows "I (snd (for_each xs body s))"
  using assms
proof (induction xs arbitrary: s)
  case Nil
  then show ?case by simp
next
  case (Cons x xs)
  obtain r u where b: "body x s = (r, u)" by (cases "body x s")
  have u: "I u" using Cons.prems(2)[OF _ Cons.prems(1) b] by simp
  show ?case
  proof (cases r)
    case None
    have "I (snd (for_each xs body u))"
      by (rule Cons.IH[OF u]) (use Cons.prems(2) in auto)
    with b None show ?thesis by simp
  next
    case (Some e)
    with b u show ?thesis by simp
  qed
qed

lemma for_each_reach:
  assumes run: "for_each xs body s = (None, s')" and x: "x \<in> set xs" and I: "I s"
    and step: "\<And>y u r u'. y \<in> set xs \<Longrightarrow> I u \<Longrightarrow> body y u = (r, u') \<Longrightarrow> I u' \<and> R u u'"
    and refl: "\<And>u. R u u" and trans: "\<And>u v w. R u v \<Longrightarrow> R v w \<Longrightarrow> R u w"
  shows "\<exists>s1 s2. I s1 \<and> body x s1 = (None, s2) \<and> R s2 s'"
  using run x I step
proof (induction xs arbitrary: s)
  case Nil
  then show ?case by simp
next
  case (Cons y ys)
  obtain r u where b: "body y s = (r, u)" by (cases "body y s")
  with Cons.prems(1) have r: "r = None" and rest: "for_each ys body u = (None, s')"
    by (auto split: option.splits)
  have u: "I u" using Cons.prems(4)[OF _ Cons.prems(3) b] by simp
  have step': "\<And>z v r v'. z \<in> set ys \<Longrightarrow> I v \<Longrightarrow> body z v = (r, v') \<Longrightarrow> I v' \<and> R v v'"
    using Cons.prems(4) by auto
  have Rrest: "R u s'"
    using rest u step'
  proof (induction ys arbitrary: u)
    case Nil
    then show ?case by (simp add: refl)
  next
    case (Cons z zs)
    obtain r2 v where bz: "body z u = (r2, v)" by (cases "body z u")
    with Cons.prems(1) have "r2 = None" and rest2: "for_each zs body v = (None, s')"
      by (auto split: option.splits)
    have "I v \<and> R u v" using Cons.prems(3)[OF _ Cons.prems(2) bz] by simp
    moreover have "R v s'" by (rule Cons.IH[OF rest2]) (use calculation Cons.prems(3) in auto)
    ultimately show ?case using trans by blast
  qed
  show ?case
  proof (cases "x = y")
    case True
    with b r Rrest Cons.prems(3) show ?thesis by blast
  next
    case False
    then have xin: "x \<in> set ys" using Cons.prems(2) by simp
    show ?thesis by (rule Cons.IH[OF rest xin u]) (use step' in blast)
  qed
qed

lemma good_inv:
  assumes "good st A" "based u \<and> le_fs st fs u" "A u = (r, u')"
  shows "(based u' \<and> le_fs st fs u') \<and> le_fs st u u'"
proof -
  have "le_fs st u u'" using good_le[OF assms(1) _ assms(3)] assms(2) by simp
  then show ?thesis using assms(2) le_fs_trans le_fs_based by blast
qed

lemma written_stays:
  assumes st: "statics_ok st" and p: "\<not> protected p" and m: "map_of st p = Some c"
    and run: "write_text p c s = (None, s1)" and le: "le_fs st s1 t"
  shows "read_bytes t p = Some c"
proof -
  have w: "wants st u p c" for u using m by (simp add: wants_def)
  have "lookup s1 p = Some (File c) \<and> parent_error s1 p = None"
    using write_text_props(4)[OF st p w run] by simp
  then show ?thesis
    using le_fs_final[OF le _ w] le_fs_parent_error[OF le] by (simp add: read_bytes_iff)
qed

lemma made_stays:
  assumes "mkdir par True p s = (None, s1)" "le_fs st s1 t"
  shows "is_dir t p"
  using mkdir_creates[OF assms(1)] le_fs_is_dir[OF assms(2)] by simp

lemma based_of_run:
  assumes "seq create_directory_structure A s = (None, s')"
  shows "based s"
proof (rule ccontr)
  assume "\<not> based s"
  then obtain e where "create_directory_structure s = (Some e, s)"
    using unbased_create_directory_structure by blast
  with assms show False by (simp add: seq_def)
qed

lemma clean_run_stages:
  assumes "clean_run fs = (None, fs')"
  obtains s1 s2 s3 where "based fs"
    "create_directory_structure fs = (None, s1)" "le_fs clean_statics fs s1"
    "move_assets s1 = (None, s2)" "le_fs clean_statics s1 s2"
    "clean_create_config_files s2 = (None, s3)" "le_fs clean_statics s2 s3"
    "clean_create_documentation s3 = (None, fs')" "le_fs clean_statics s3 fs'"
proof -
  have b: "based fs" using assms unfolding clean_run_def by (rule based_of_run)
  from assms obtain s1 s2 s3 s4 s5 where st:
    "create_directory_structure fs = (None, s1)" "move_assets s1 = (None, s2)"
    "clean_create_config_files s2 = (None, s3)" "clean_create_documentation s3 = (None, s4)"
    "create_index_html s4 = (None, s5)" "(None, snd (cleanup_old_files s5)) = (None, fs')"
    unfolding clean_run_def by (elim seq_NoneE) blast
  have "s4 = fs'"
    using st(5,6) by (simp add: create_index_html_def cleanup_old_files_def)
  note st = st(1-4)[unfolded this]
  have l1: "le_fs clean_statics fs s1" by (rule good_le[OF good_create_directory_structure b st(1)])
  have b1: "based s1" by (rule le_fs_based[OF l1 b])
  have l2: "le_fs clean_statics s1 s2"
    by (rule good_le[OF good_move_assets[OF statics_ok_clean] b1 st(2)])
  have b2: "based s2" by (rule le_fs_based[OF l2 b1])
  have l3: "le_fs clean_statics s2 s3"
    by (rule good_le[OF good_clean_create_config_files b2 st(3)])
  have b3: "based s3" by (rule le_fs_based[OF l3 b2])
  have l4: "le_fs clean_statics s3 fs'"
    by (rule good_le[OF good_clean_create_documentation b3 st(4)])
  show thesis by (rule that[OF b st(1) l1 st(2) l2 st(3) l3 st(4) l4])
qed

lemma restructure_run_stages:
  assumes "restructure_run fs = (None, fs')"
  obtains s1 s2 s3 where "based fs"
    "create_directory_structure fs = (None, s1)" "le_fs restructure_statics fs s1"
    "move_assets s1 = (None, s2)" "le_fs restructure_statics s1 s2"
    "restructure_create_config_files s2 = (None, s3)" "le_fs restructure_statics s2 s3"
    "restructure_create_documentation s3 = (None, fs')" "le_fs restructure_statics s3 fs'"
proof -
  have b: "based fs" using assms unfolding restructure_run_def by (rule based_of_run)
  from assms obtain s1 s2 s3 where st:
    "create_directory_structure fs = (None, s1)" "move_assets s1 = (None, s2)"
    "restructure_create_config_files s2 = (None, s3)"
    "restructure_create_documentation s3 = (None, fs')"
    unfolding restructure_run_def by (elim seq_NoneE) blast
  have l1: "le_fs restructure_statics fs s1"
    by (rule good_le[OF good_create_directory_structure b st(1)])
  have b1: "based s1" by (rule le_fs_based[OF l1 b])
  have l2: "le_fs restructure_statics s1 s2"
    by (rule good_le[OF good_move_assets[OF statics_ok_restructure] b1 st(2)])
  have b2: "based s2" by (rule le_fs_based[OF l2 b1])
  have l3: "le_fs restructure_statics s2 s3"
    by (rule good_le[OF good_restructure_create_config_files b2 st(3)])
  have b3: "based s3" by (rule le_fs_based[OF l3 b2])
  have l4: "le_fs restructure_statics s3 fs'"
    by (rule good_le[OF good_restructure_create_documentation b3 st(4)])
  show thesis by (rule that[OF b st(1) l1 st(2) l2 st(3) l3 st(4) l4])
qed

section \<open>What an action leaves alone\<close>

lemma keeps_skip: "keeps p (\<lambda>s. (None, s))"
  by (simp add: keeps_def)

lemma keeps_seq:
  assumes "keeps p A" "keeps p B"
  shows "keeps p (seq A B)"
  unfolding keeps_def
proof (intro allI)
  fix s
  obtain r s1 where a: "A s = (r, s1)" by (cases "A s")
  have 1: "lookup s1 p = lookup s p" using assms(1) a unfolding keeps_def by (metis snd_conv)
  show "lookup (snd (seq A B s)) p = lookup s p"
  proof (cases r)
    case None
    then have "seq A B s = B s1" using a by (simp add: seq_def)
    then show ?thesis using assms(2) 1 unfolding keeps_def by simp
  next
    case (Some e)
    then show ?thesis using a 1 by (simp add: seq_def)
  qed
qed

lemma keeps_for_each:
  assumes "\<And>x. x \<in> set xs \<Longrightarrow> keeps p (body x)"
  shows "keeps p (for_each xs body)"
  using assms
proof (induction xs)
  case Nil
  then show ?case by (simp add: keeps_def)
next
  case (Cons x xs)
  show ?case unfolding for_each_Cons_seq
    by (rule keeps_seq) (use Cons in auto)
qed

lemma keeps_dep: "(\<And>x. keeps p (F x)) \<Longrightarrow> keeps p (\<lambda>s. F (g s) s)"
  by (simp add: keeps_def)

lemma keeps_if: "keeps p A \<Longrightarrow> keeps p (\<lambda>s. if c s then A s else (None, s))"
  by (simp add: keeps_def)

lemma keeps_write_text: "p \<noteq> q \<Longrightarrow> keeps p (write_text q c)"
  unfolding keeps_def
proof (intro allI)
  fix s assume "p \<noteq> q"
  obtain r s' where w: "write_text q c s = (r, s')" by (cases "write_text q c s")
  from write_text_cases[OF w] \<open>p \<noteq> q\<close> have "lookup s' p = lookup s p" by auto
  with w show "lookup (snd (write_text q c s)) p = lookup s p" by simp
qed

lemma copy2_effect:
  assumes "copy2 src dst s = (r, s')"
  shows "s' = s \<or> (\<exists>b. s' = AList.update dst (File b) s \<or> s' = AList.update (dst @ [basename src]) (File b) s)"
proof -
  let ?d = "if is_dir s dst then dst @ [basename src] else dst"
  show ?thesis
  proof (cases "src = ?d \<and> path_exists s src")
    case True
    then show ?thesis using assms by (simp add: copy2_def Let_def)
  next
    case False
    then have eq: "copy2 src dst s =
      (case stat s src of Inl e \<Rightarrow> (Some e, s) | Inr Dir \<Rightarrow> (Some IsADirectoryError, s)
       | Inr (File b) \<Rightarrow> write_text ?d b s)"
      by (cases "is_dir s dst") (auto simp: copy2_def Let_def)
    show ?thesis
    proof (cases "stat s src")
      case (Inl e)
      with eq assms show ?thesis by simp
    next
      case (Inr n)
      show ?thesis
      proof (cases n)
        case (File b)
        with eq Inr assms have "write_text ?d b s = (r, s')" by simp
        from write_text_cases[OF this] show ?thesis by (cases "is_dir s dst") auto
      next
        case Dir
        with eq Inr assms show ?thesis by simp
      qed
    qed
  qed
qed

lemma keeps_copy2:
  assumes "p \<noteq> dst" "p \<noteq> dst @ [basename src]"
  shows "keeps p (copy2 src dst)"
  unfolding keeps_def
proof (intro allI)
  fix s
  obtain r s' where c: "copy2 src dst s = (r, s')" by (cases "copy2 src dst s")
  from copy2_effect[OF c] assms have "lookup s' p = lookup s p" by auto
  with c show "lookup (snd (copy2 src dst s)) p = lookup s p" by simp
qed

lemma keeps_mkdir:
  assumes "\<not> prefix p q"
  shows "keeps p (mkdir par True q)"
  unfolding keeps_def
proof (intro allI)
  fix s
  obtain r s' where m: "mkdir par True q s = (r, s')" by (cases "mkdir par True q s")
  have "creates q s s'" using mkdir_creates[OF m] by simp
  from createsD1[OF this, of p] assms have "lookup s' p = lookup s p" by auto
  with m show "lookup (snd (mkdir par True q s)) p = lookup s p" by simp
qed

lemma mkdir_False_effect:
  assumes "mkdir False True q s = (r, s')"
  shows "s' = s \<or> s' = AList.update q Dir s"
  using assms
  by (subst (asm) mkdir_unfold)
     (auto simp: os_mkdir_def split: if_splits option.splits prod.splits)

lemma keeps_mkdir_False:
  assumes "p \<noteq> q"
  shows "keeps p (mkdir False True q)"
  unfolding keeps_def
proof (intro allI)
  fix s
  obtain r s' where m: "mkdir False True q s = (r, s')" by (cases "mkdir False True q s")
  from mkdir_False_effect[OF m] assms have "lookup s' p = lookup s p" by auto
  with m show "lookup (snd (mkdir False True q s)) p = lookup s p" by simp
qed

lemma no_new_dirs_skip: "no_new_dirs (\<lambda>s. (None, s))"
  by (simp add: no_new_dirs_def)

lemma no_new_dirs_seq:
  assumes "no_new_dirs A" "no_new_dirs B"
  shows "no_new_dirs (seq A B)"
  unfolding no_new_dirs_def
proof (intro allI impI)
  fix s q assume d: "lookup (snd (seq A B s)) q = Some Dir"
  obtain r s1 where a: "A s = (r, s1)" by (cases "A s")
  have 1: "lookup s1 q = Some Dir \<Longrightarrow> lookup s q = Some Dir"
    using assms(1) a unfolding no_new_dirs_def by (metis snd_conv)
  show "lookup s q = Some Dir"
  proof (cases r)
    case None
    then have "seq A B s = B s1" using a by (simp add: seq_def)
    then have "lookup s1 q = Some Dir" using assms(2) d unfolding no_new_dirs_def by simp
    then show ?thesis by (rule 1)
  next
    case (Some e)
    then show ?thesis using a d 1 by (simp add: seq_def)
  qed
qed

lemma no_new_dirs_for_each:
  assumes "\<And>x. x \<in> set xs \<Longrightarrow> no_new_dirs (body x)"
  shows "no_new_dirs (for_each xs body)"
  using assms
proof (induction xs)
  case Nil
  then show ?case by (simp add: no_new_dirs_def)
next
  case (Cons x xs)
  show ?case unfolding for_each_Cons_seq
    by (rule no_new_dirs_seq) (use Cons in auto)
qed

lemma no_new_dirs_if: "no_new_dirs A \<Longrightarrow> no_new_dirs (\<lambda>s. if c s then A s else (None, s))"
  by (simp add: no_new_dirs_def)

lemma no_new_dirs_write_text: "no_new_dirs (write_text q c)"
  unfolding no_new_dirs_def
proof (intro allI impI)
  fix s p assume a: "lookup (snd (write_text q c s)) p = Some Dir"
  obtain r s' where w: "write_text q c s = (r, s')" by (cases "write_text q c s")
  from write_text_cases[OF w] a w show "lookup s p = Some Dir" by (auto split: if_splits)
qed

lemma no_new_dirs_copy2: "no_new_dirs (copy2 src dst)"
  unfolding no_new_dirs_def
proof (intro allI impI)
  fix s p assume a: "lookup (snd (copy2 src dst s)) p = Some Dir"
  obtain r s' where c: "copy2 src dst s = (r, s')" by (cases "copy2 src dst s")
  from copy2_effect[OF c] a c show "lookup s p = Some Dir" by (auto split: if_splits)
qed

lemma no_new_dirs_copy_component: "no_new_dirs (copy_component c)"
  unfolding copy_component_def Let_def by (rule no_new_dirs_if[OF no_new_dirs_copy2])

lemma no_new_dirs_copy_util: "no_new_dirs (copy_util c)"
  unfolding copy_util_def Let_def by (rule no_new_dirs_if[OF no_new_dirs_copy2])

lemma no_new_dirsD: "no_new_dirs A \<Longrightarrow> A s = (r, s') \<Longrightarrow> lookup s q \<noteq> Some Dir \<Longrightarrow> lookup s' q \<noteq> Some Dir"
  unfolding no_new_dirs_def by (metis snd_conv)

lemma keepsD: "keeps p A \<Longrightarrow> A s = (r, s') \<Longrightarrow> lookup s' p = lookup s p"
  unfolding keeps_def by (metis snd_conv)

section \<open>What a run that completes has written\<close>

lemma seq_fix:
  assumes A: "good st A" and B: "good st B" and s: "based s"
    and run: "seq A B s = (None, s')" and t: "le_fs st s' t"
  obtains s1 where "A s = (None, s1)" "based s1" "le_fs st s s1" "le_fs st s1 t" "B s1 = (None, s')"
proof -
  from run obtain s1 where a: "A s = (None, s1)" and b: "B s1 = (None, s')" by (rule seq_NoneE)
  have l: "le_fs st s s1" by (rule good_le[OF A s a])
  have s1: "based s1" by (rule le_fs_based[OF l s])
  have "le_fs st s1 s'" by (rule good_le[OF B s1 b])
  then have "le_fs st s1 t" using t by (rule le_fs_trans)
  then show thesis using that[OF a s1 l _ b] by blast
qed

lemma mem_planned_directories:
  "d \<in> set planned_directories \<longleftrightarrow>
     (\<exists>(main_dir, subdirs)\<in>set new_structure. d = [main_dir] \<or> (\<exists>subdir\<in>set subdirs. d = [main_dir, subdir]))"
  by (auto simp: planned_directories_def)

lemma good_make_subdirs: "(m, subs) \<in> set new_structure \<Longrightarrow> x \<in> set subs \<Longrightarrow> good st (mkdir False True [m, x])"
  by (rule good_mkdir) (auto simp: new_structure_def protected_def old_dirs_def)

lemma good_make_main: "(m, subs) \<in> set new_structure \<Longrightarrow> good st (mkdir False True [m])"
  by (rule good_mkdir) (auto simp: new_structure_def protected_def old_dirs_def)

lemma planned_directories_made:
  assumes run: "create_directory_structure s = (None, s1)" and s: "based s"
    and t: "le_fs st s1 t" and d: "d \<in> set planned_directories"
  shows "is_dir t d"
proof -
  let ?body = "\<lambda>(main_dir, subdirs).
       seq (mkdir False True [main_dir])
           (for_each subdirs (\<lambda>subdir. mkdir False True [main_dir, subdir]))"
  from d obtain m subs where x: "(m, subs) \<in> set new_structure"
    and dd: "d = [m] \<or> (\<exists>subdir\<in>set subs. d = [m, subdir])"
    unfolding mem_planned_directories by blast
  have gb: "good st (?body y)" if "y \<in> set new_structure" for y
  proof (cases y)
    case (Pair a b)
    have "good st (seq (mkdir False True [a]) (for_each b (\<lambda>subdir. mkdir False True [a, subdir])))"
      by (intro good_seq good_for_each good_make_main[of a b] good_make_subdirs[of a b])
         (use that Pair in auto)
    then show ?thesis using Pair by simp
  qed
  have "\<exists>u u'. based u \<and> ?body (m, subs) u = (None, u') \<and> le_fs st u' s1"
  proof (rule for_each_reach[where I = based and R = "le_fs st", OF run[unfolded create_directory_structure_def] x s])
    fix y u r u' assume "y \<in> set new_structure" "based u" "?body y u = (r, u')"
    then have "le_fs st u u'" using good_le[OF gb] by blast
    then show "based u' \<and> le_fs st u u'" using \<open>based u\<close> le_fs_based by blast
  qed (auto intro: le_fs_refl le_fs_trans)
  then obtain u u' where u: "based u" "?body (m, subs) u = (None, u')" "le_fs st u' s1" by blast
  have ut: "le_fs st u' t" by (rule le_fs_trans[OF u(3) t])
  have inner: "good st (for_each subs (\<lambda>subdir. mkdir False True [m, subdir]))"
    by (rule good_for_each) (rule good_make_subdirs[OF x])
  from u(2) have "seq (mkdir False True [m])
       (for_each subs (\<lambda>subdir. mkdir False True [m, subdir])) u = (None, u')" by simp
  from seq_fix[OF good_make_main[OF x] inner u(1) this ut]
  obtain v where v: "mkdir False True [m] u = (None, v)" "based v" "le_fs st v t"
    "for_each subs (\<lambda>subdir. mkdir False True [m, subdir]) v = (None, u')" by blast
  from dd show ?thesis
  proof
    assume "d = [m]"
    then show ?thesis using made_stays[OF v(1) v(3)] by simp
  next
    assume "\<exists>subdir\<in>set subs. d = [m, subdir]"
    then obtain sub where sub: "sub \<in> set subs" "d = [m, sub]" by blast
    have "\<exists>w w'. based w \<and> mkdir False True [m, sub] w = (None, w') \<and> le_fs st w' u'"
    proof (rule for_each_reach[where I = based and R = "le_fs st", OF v(4) sub(1) v(2)])
      fix y w r w' assume "y \<in> set subs" "based w" "mkdir False True [m, y] w = (r, w')"
      then have "le_fs st w w'" using good_le[OF good_make_subdirs[OF x]] by blast
      then show "based w' \<and> le_fs st w w'" using \<open>based w\<close> le_fs_based by blast
    qed (auto intro: le_fs_refl le_fs_trans)
    then obtain w w' where w: "mkdir False True [m, sub] w = (None, w')" "le_fs st w' u'" by blast
    show ?thesis using made_stays[OF w(1) le_fs_trans[OF w(2) ut]] sub(2) by simp
  qed
qed

lemma clean_run_written:
  assumes run: "clean_run fs = (None, fs')"
  shows "read_bytes fs' [''package.json''] = Some (json_dumps package_json)"
    and "read_bytes fs' [''vercel.json''] = Some (json_dumps clean_vercel_config)"
    and "read_bytes fs' [''.gitignore''] = Some gitignore_content"
    and "read_bytes fs' [''README.md''] = Some clean_readme_content"
    and "read_bytes fs' [''docs'', ''TECHNICAL.md''] = Some tech_doc"
    and "d \<in> set planned_directories \<Longrightarrow> is_dir fs' d"
proof -
  note st = statics_ok_clean
  from run obtain s1 s2 s3 where stages: "based fs"
    "create_directory_structure fs = (None, s1)" "le_fs clean_statics fs s1"
    "move_assets s1 = (None, s2)" "le_fs clean_statics s1 s2"
    "clean_create_config_files s2 = (None, s3)" "le_fs clean_statics s2 s3"
    "clean_create_documentation s3 = (None, fs')" "le_fs clean_statics s3 fs'"
    by (rule clean_run_stages)
  have b2: "based s2" using stages le_fs_based by blast
  have b3: "based s3" using stages(7) b2 le_fs_based by blast
  have l1: "le_fs clean_statics s1 fs'"
    using stages(5,7,9) le_fs_trans by blast
  show "d \<in> set planned_directories \<Longrightarrow> is_dir fs' d"
    by (rule planned_directories_made[OF stages(2) stages(1) l1])
  have np: "\<not> protected [''package.json'']" "\<not> protected [''vercel.json'']"
    "\<not> protected [''.gitignore'']" "\<not> protected [''README.md'']"
    "\<not> protected [''docs'', ''TECHNICAL.md'']" "\<not> protected [''docs'']"
    by (simp_all add: protected_def old_dirs_def)
  have m: "map_of clean_statics [''package.json''] = Some (json_dumps package_json)"
    "map_of clean_statics [''vercel.json''] = Some (json_dumps clean_vercel_config)"
    "map_of clean_statics [''.gitignore''] = Some gitignore_content"
    "map_of clean_statics [''README.md''] = Some clean_readme_content"
    "map_of clean_statics [''docs'', ''TECHNICAL.md''] = Some tech_doc"
    by (simp_all add: clean_statics_def)
  note gw = good_write_text[OF st]
  from seq_fix[OF gw[OF np(1) m(1)] good_seq[OF gw[OF np(2) m(2)] gw[OF np(3) m(3)]] b2
      stages(6)[unfolded clean_create_config_files_def] stages(9)]
  obtain a where a: "write_text [''package.json''] (json_dumps package_json) s2 = (None, a)"
    "based a" "le_fs clean_statics a fs'"
    "seq (write_text [''vercel.json''] (json_dumps clean_vercel_config))
         (write_text [''.gitignore''] gitignore_content) a = (None, s3)" by blast
  show "read_bytes fs' [''package.json''] = Some (json_dumps package_json)"
    by (rule written_stays[OF st np(1) m(1) a(1) a(3)])
  from seq_fix[OF gw[OF np(2) m(2)] gw[OF np(3) m(3)] a(2) a(4) stages(9)]
  obtain b where b: "write_text [''vercel.json''] (json_dumps clean_vercel_config) a = (None, b)"
    "le_fs clean_statics b fs'"
    "write_text [''.gitignore''] gitignore_content b = (None, s3)" by blast
  show "read_bytes fs' [''vercel.json''] = Some (json_dumps clean_vercel_config)"
    by (rule written_stays[OF st np(2) m(2) b(1) b(2)])
  show "read_bytes fs' [''.gitignore''] = Some gitignore_content"
    by (rule written_stays[OF st np(3) m(3) b(3) stages(9)])
  from seq_fix[OF gw[OF np(4) m(4)] good_seq[OF good_mkdir[OF np(6)] gw[OF np(5) m(5)]] b3
      stages(8)[unfolded clean_create_documentation_def] le_fs_refl]
  obtain c where c: "write_text [''README.md''] clean_readme_content s3 = (None, c)"
    "based c" "le_fs clean_statics c fs'"
    "seq (mkdir False True [''docs''])
         (write_text [''docs'', ''TECHNICAL.md''] tech_doc) c = (None, fs')" by blast
  show "read_bytes fs' [''README.md''] = Some clean_readme_content"
    by (rule written_stays[OF st np(4) m(4) c(1) c(3)])
  from c(4) obtain e where e: "write_text [''docs'', ''TECHNICAL.md''] tech_doc e = (None, fs')"
    by (rule seq_NoneE)
  show "read_bytes fs' [''docs'', ''TECHNICAL.md''] = Some tech_doc"
    by (rule written_stays[OF st np(5) m(5) e le_fs_refl])
qed

lemma restructure_run_written:
  assumes run: "restructure_run fs = (None, fs')"
  shows "read_bytes fs' [''package.json''] = Some (json_dumps package_json)"
    and "read_bytes fs' [''vercel.json''] = Some (json_dumps restructure_vercel_config)"
    and "read_bytes fs' [''README.md''] = Some restructure_readme_content"
    and "d \<in> set planned_directories \<Longrightarrow> is_dir fs' d"
proof -
  note st = statics_ok_restructure
  from run obtain s1 s2 s3 where stages: "based fs"
    "create_directory_structure fs = (None, s1)" "le_fs restructure_statics fs s1"
    "move_assets s1 = (None, s2)" "le_fs restructure_statics s1 s2"
    "restructure_create_config_files s2 = (None, s3)" "le_fs restructure_statics s2 s3"
    "restructure_create_documentation s3 = (None, fs')" "le_fs restructure_statics s3 fs'"
    by (rule restructure_run_stages)
  have b2: "based s2" using stages le_fs_based by blast
  have l1: "le_fs restructure_statics s1 fs'"
    using stages(5,7,9) le_fs_trans by blast
  show "d \<in> set planned_directories \<Longrightarrow> is_dir fs' d"
    by (rule planned_directories_made[OF stages(2) stages(1) l1])
  have np: "\<not> protected [''package.json'']" "\<not> protected [''vercel.json'']"
    "\<not> protected [''README.md'']"
    by (simp_all add: protected_def old_dirs_def)
  have m: "map_of restructure_statics [''package.json''] = Some (json_dumps package_json)"
    "map_of restructure_statics [''vercel.json''] = Some (json_dumps restructure_vercel_config)"
    "map_of restructure_statics [''README.md''] = Some restructure_readme_content"
    by (simp_all add: restructure_statics_def)
  note gw = good_write_text[OF st]
  from seq_fix[OF gw[OF np(1) m(1)] gw[OF np(2) m(2)] b2
      stages(6)[unfolded restructure_create_config_files_def] stages(9)]
  obtain a where a: "write_text [''package.json''] (json_dumps package_json) s2 = (None, a)"
    "le_fs restructure_statics a fs'"
    "write_text [''vercel.json''] (json_dumps restructure_vercel_config) a = (None, s3)" by blast
  show "read_bytes fs' [''package.json''] = Some (json_dumps package_json)"
    by (rule written_stays[OF st np(1) m(1) a(1) a(2)])
  show "read_bytes fs' [''vercel.json''] = Some (json_dumps restructure_vercel_config)"
    by (rule written_stays[OF st np(2) m(2) a(3) stages(9)])
  show "read_bytes fs' [''README.md''] = Some restructure_readme_content"
    by (rule written_stays[OF st np(3) m(3)
        stages(8)[unfolded restructure_create_documentation_def] le_fs_refl])
qed

section \<open>Running twice\<close>

lemma run_again:
  assumes g: "good st A"
  shows "snd (seq create_directory_structure A (snd (seq create_directory_structure A s)))
           = snd (seq create_directory_structure A s)
       \<and> (fst (seq create_directory_structure A (snd (seq create_directory_structure A s))) = None)
           = (fst (seq create_directory_structure A s) = None)"
proof (cases "based s")
  case False
  then obtain e where "create_directory_structure s = (Some e, s)"
    using unbased_create_directory_structure by blast
  then have "seq create_directory_structure A s = (Some e, s)" by (simp add: seq_def)
  then show ?thesis by simp
next
  case True
  let ?R = "seq create_directory_structure A"
  have gR: "good st ?R" by (rule good_seq[OF good_create_directory_structure g])
  obtain r s' where run: "?R s = (r, s')" by (cases "?R s")
  show ?thesis
  proof (cases r)
    case None
    have "?R s' = (None, s')" by (rule good_again[OF gR True run[unfolded None] le_fs_refl])
    with run None show ?thesis by simp
  next
    case (Some e)
    obtain e' where "?R s' = (Some e', s')" using good_fail[OF gR True run[unfolded Some]] by blast
    with run Some show ?thesis by simp
  qed
qed

text \<open>
  C3. For every starting file system, a second run of \<^verbatim>\<open>run()\<close> right after the first
  leaves the file system (the kind of every path and the bytes of every file) exactly as
  the first run left it, for both scripts, whether the first run completed or raised.
  The statement is about the state only: whether the second run re-copies a file or
  raises on it (as \<^verbatim>\<open>shutil.copy2\<close> does on a copy that took a read-only mode from its
  source) is not part of it, and in either case the state stays the same.
\<close>

theorem run_twice_same_state:
  "snd (clean_run (snd (clean_run fs))) = snd (clean_run fs)
   \<and> snd (restructure_run (snd (restructure_run fs))) = snd (restructure_run fs)"
proof -
  have c: "good clean_statics (seq move_assets (seq clean_create_config_files
      (seq clean_create_documentation (seq create_index_html
         (\<lambda>fs. (None, snd (cleanup_old_files fs)))))))"
    by (intro good_seq good_move_assets[OF statics_ok_clean] good_clean_create_config_files
        good_clean_create_documentation good_create_index_html good_cleanup_old_files)
  have r: "good restructure_statics (seq move_assets (seq restructure_create_config_files
         restructure_create_documentation))"
    by (intro good_seq good_move_assets[OF statics_ok_restructure]
        good_restructure_create_config_files good_restructure_create_documentation)
  show ?thesis
    using run_again[OF c, of fs] run_again[OF r, of fs]
    unfolding clean_run_def restructure_run_def by simp
qed

section \<open>The legacy directories\<close>

lemma run_le:
  assumes g: "good st A"
  shows "le_fs st s (snd (seq create_directory_structure A s))"
proof (cases "based s")
  case True
  have "good st (seq create_directory_structure A)"
    by (rule good_seq[OF good_create_directory_structure g])
  then show ?thesis using good_le[OF _ True] by (metis prod.collapse)
next
  case False
  then obtain e where "create_directory_structure s = (Some e, s)"
    using unbased_create_directory_structure by blast
  then show ?thesis by (simp add: seq_def le_fs_refl)
qed

lemma clean_run_le: "le_fs clean_statics s (snd (clean_run s))"
  unfolding clean_run_def
  by (rule run_le)
     (intro good_seq good_move_assets[OF statics_ok_clean] good_clean_create_config_files
        good_clean_create_documentation good_create_index_html good_cleanup_old_files)

lemma restructure_run_le: "le_fs restructure_statics s (snd (restructure_run s))"
  unfolding restructure_run_def
  by (rule run_le)
     (intro good_seq good_move_assets[OF statics_ok_restructure]
        good_restructure_create_config_files good_restructure_create_documentation)

lemma le_fs_exists: "le_fs st s t \<Longrightarrow> path_exists s p \<Longrightarrow> path_exists t p"
proof -
  assume le: "le_fs st s t" and e: "path_exists s p"
  then obtain n where n: "parent_error s p = None" "lookup s p = Some n"
    by (auto simp: path_exists_iff)
  have "lookup t p \<noteq> None"
    using n(2) le_fs_Dir[OF le, of p] le_fs_File[OF le, of p] by (cases n) auto
  then show ?thesis using le_fs_parent_error[OF le n(1)] by (simp add: path_exists_iff)
qed

lemma protected_old_dir: "d \<in> set old_dirs \<Longrightarrow> protected (d # r)"
  by (simp add: protected_def)

text \<open>
  C4. No run deletes a legacy directory. For each name of the fixed list of legacy
  directories, every path at or below that directory has the same status (kind and bytes)
  after a run of either script as before it, whether the run completes or raises;
  \<^verbatim>\<open>cleanup_old_files\<close> returns the file system it was given and prints its notice exactly
  for the names that are existing directories; and no path that exists before a run is
  missing after it, so nothing is ever removed.
\<close>

theorem legacy_directories_kept:
  "(\<forall>d\<in>set old_dirs. \<forall>r.
       stat (snd (clean_run fs)) (d # r) = stat fs (d # r)
     \<and> stat (snd (restructure_run fs)) (d # r) = stat fs (d # r))
   \<and> cleanup_old_files fs = (filter (\<lambda>d. is_dir fs [d]) old_dirs, fs)
   \<and> (\<forall>p. path_exists fs p \<longrightarrow>
          path_exists (snd (clean_run fs)) p \<and> path_exists (snd (restructure_run fs)) p)"
proof (intro conjI ballI allI impI)
  fix d r assume "d \<in> set old_dirs"
  then have p: "protected (d # r)" by (rule protected_old_dir)
  show "stat (snd (clean_run fs)) (d # r) = stat fs (d # r)"
    by (rule le_fs_stat[OF clean_run_le p])
  show "stat (snd (restructure_run fs)) (d # r) = stat fs (d # r)"
    by (rule le_fs_stat[OF restructure_run_le p])
next
  have "(path_exists fs [d] \<and> is_dir fs [d]) = is_dir fs [d]" for d
    by (auto simp: path_exists_iff is_dir_iff)
  then show "cleanup_old_files fs = (filter (\<lambda>d. is_dir fs [d]) old_dirs, fs)"
    by (simp add: cleanup_old_files_def)
next
  fix p assume "path_exists fs p"
  then show "path_exists (snd (clean_run fs)) p" by (rule le_fs_exists[OF clean_run_le])
next
  fix p assume "path_exists fs p"
  then show "path_exists (snd (restructure_run fs)) p" by (rule le_fs_exists[OF restructure_run_le])
qed

theorem legacy_directories_kept_witness:
  "''Campus-Tour-NYUAD-main'' \<in> set old_dirs
   \<and> stat (snd (clean_run [([], Dir), ([''Campus-Tour-NYUAD-main''], Dir),
        ([''Campus-Tour-NYUAD-main'', ''pinchable.js''], File ''abc'')]))
        [''Campus-Tour-NYUAD-main'', ''pinchable.js''] = Inr (File ''abc'')
   \<and> path_exists [([], Dir), ([''Campus-Tour-NYUAD-main''], Dir),
        ([''Campus-Tour-NYUAD-main'', ''pinchable.js''], File ''abc'')] [''Campus-Tour-NYUAD-main'']
   \<and> path_exists (snd (restructure_run [([], Dir), ([''Campus-Tour-NYUAD-main''], Dir),
        ([''Campus-Tour-NYUAD-main'', ''pinchable.js''], File ''abc'')])) [''Campus-Tour-NYUAD-main'']"
  using legacy_directories_kept[of "[([], Dir), ([''Campus-Tour-NYUAD-main''], Dir),
        ([''Campus-Tour-NYUAD-main'', ''pinchable.js''], File ''abc'')]"]
  by (simp add: old_dirs_def stat_def parent_error_def lookup_def path_exists_def)

section \<open>The descriptors read back\<close>

lemma loads_package_json: "json_loads (json_dumps package_json) = Some package_json"
  by code_simp

lemma loads_clean_vercel_config:
  "json_loads (json_dumps clean_vercel_config) = Some clean_vercel_config"
  by code_simp

lemma loads_restructure_vercel_config:
  "json_loads (json_dumps restructure_vercel_config) = Some restructure_vercel_config"
  by code_simp

lemma clean_run_completes_fresh: "fst (clean_run [([], Dir)]) = None"
  by code_simp

lemma restructure_run_completes_fresh: "fst (restructure_run [([], Dir)]) = None"
  by code_simp

lemma completed: "fst x = None \<Longrightarrow> x = (None, snd x)"
  by (simp add: prod_eq_iff)

text \<open>
  C6. After every run that completes, the bytes of \<^verbatim>\<open>package.json\<close> read back as JSON are
  the source's \<^verbatim>\<open>package_json\<close> dictionary, whose keys are exactly name, version,
  description, author, license, scripts, keywords and repository; and the bytes of
  \<^verbatim>\<open>vercel.json\<close> read back are the script's own \<^verbatim>\<open>vercel_config\<close>, whose keys are exactly
  version, builds, routes and headers.
\<close>

theorem descriptors_parse_back:
  "(clean_run fs = (None, fs') \<longrightarrow>
      (\<exists>text. read_bytes fs' [''package.json''] = Some text \<and> json_loads text = Some package_json)
    \<and> (\<exists>text. read_bytes fs' [''vercel.json''] = Some text
           \<and> json_loads text = Some clean_vercel_config))
   \<and> (restructure_run fs = (None, fs') \<longrightarrow>
      (\<exists>text. read_bytes fs' [''package.json''] = Some text \<and> json_loads text = Some package_json)
    \<and> (\<exists>text. read_bytes fs' [''vercel.json''] = Some text
           \<and> json_loads text = Some restructure_vercel_config))
   \<and> object_keys package_json =
        [''name'', ''version'', ''description'', ''author'', ''license'', ''scripts'',
         ''keywords'', ''repository'']
   \<and> object_keys clean_vercel_config = [''version'', ''builds'', ''routes'', ''headers'']
   \<and> object_keys restructure_vercel_config = [''version'', ''builds'', ''routes'', ''headers'']"
proof (intro conjI impI)
  assume "clean_run fs = (None, fs')"
  from clean_run_written(1,2)[OF this]
  show "\<exists>text. read_bytes fs' [''package.json''] = Some text \<and> json_loads text = Some package_json"
    and "\<exists>text. read_bytes fs' [''vercel.json''] = Some text
           \<and> json_loads text = Some clean_vercel_config"
    using loads_package_json loads_clean_vercel_config by blast+
next
  assume "restructure_run fs = (None, fs')"
  from restructure_run_written(1,2)[OF this]
  show "\<exists>text. read_bytes fs' [''package.json''] = Some text \<and> json_loads text = Some package_json"
    and "\<exists>text. read_bytes fs' [''vercel.json''] = Some text
           \<and> json_loads text = Some restructure_vercel_config"
    using loads_package_json loads_restructure_vercel_config by blast+
qed (simp_all add: object_keys_def package_json_def clean_vercel_config_def
      restructure_vercel_config_def)

theorem descriptors_parse_back_witness:
  "clean_run [([], Dir)] = (None, snd (clean_run [([], Dir)]))
   \<and> (\<exists>text. read_bytes (snd (clean_run [([], Dir)])) [''vercel.json''] = Some text
          \<and> json_loads text = Some clean_vercel_config)
   \<and> restructure_run [([], Dir)] = (None, snd (restructure_run [([], Dir)]))
   \<and> (\<exists>text. read_bytes (snd (restructure_run [([], Dir)])) [''vercel.json''] = Some text
          \<and> json_loads text = Some restructure_vercel_config)"
  using descriptors_parse_back[of "[([], Dir)]" "snd (clean_run [([], Dir)])"]
    descriptors_parse_back[of "[([], Dir)]" "snd (restructure_run [([], Dir)])"]
    completed[OF clean_run_completes_fresh] completed[OF restructure_run_completes_fresh]
  by simp

section \<open>The generated documentation\<close>

lemma keeps_create_directory_structure:
  assumes "p \<notin> set planned_directories"
  shows "keeps p create_directory_structure"
  unfolding create_directory_structure_def
proof (rule keeps_for_each)
  fix x assume x: "x \<in> set new_structure"
  obtain m subs where xm: "x = (m, subs)" by (cases x)
  have 1: "p \<noteq> [m]" using assms x xm unfolding mem_planned_directories by blast
  have 2: "p \<noteq> [m, sub]" if "sub \<in> set subs" for sub
    using assms x xm that unfolding mem_planned_directories by blast
  have "keeps p (seq (mkdir False True [m]) (for_each subs (\<lambda>subdir. mkdir False True [m, subdir])))"
    by (intro keeps_seq keeps_for_each keeps_mkdir_False 1 2)
  then show "keeps p (case x of (main_dir, subdirs) \<Rightarrow>
       seq (mkdir False True [main_dir])
           (for_each subdirs (\<lambda>subdir. mkdir False True [main_dir, subdir])))"
    using xm by simp
qed

lemma keeps_copy_component:
  assumes "p \<noteq> [''src'', ''components'', c]" "p \<noteq> [''src'', ''components'', c, c]"
  shows "keeps p (copy_component c)"
  unfolding copy_component_def Let_def
  by (rule keeps_if[OF keeps_copy2]) (use assms in \<open>simp_all add: basename_def\<close>)

lemma keeps_copy_util:
  assumes "p \<noteq> [''src'', ''utils'', u]" "p \<noteq> [''src'', ''utils'', u, u]"
  shows "keeps p (copy_util u)"
  unfolding copy_util_def Let_def
  by (rule keeps_if[OF keeps_copy2]) (use assms in \<open>simp_all add: basename_def webxr_utils_def\<close>)

lemma keeps_copy_item:
  assumes D: "D \<noteq> []" and p: "\<not> prefix D p" "\<not> prefix p D"
  shows "keeps p (copy_item S D item)"
proof -
  let ?d = "D @ relative_to item S"
  have 1: "\<not> prefix p (butlast ?d)"
  proof
    assume "prefix p (butlast ?d)"
    then have "prefix p ?d" by (meson prefix_order.trans prefixeq_butlast)
    then have "prefix p D \<or> prefix D p" by (auto simp: prefix_append)
    with p show False by simp
  qed
  have 2: "p \<noteq> ?d" "p \<noteq> ?d @ [basename item]" using p(1) by auto
  have "keeps p (seq (mkdir True True (butlast ?d)) (copy2 item ?d))"
    by (intro keeps_seq keeps_mkdir keeps_copy2 1 2)
  then have "keeps p (\<lambda>s. if is_file s item
      then seq (mkdir True True (butlast ?d)) (copy2 item ?d) s else (None, s))"
    by (rule keeps_if)
  moreover have "copy_item S D item = (\<lambda>s. if is_file s item
      then seq (mkdir True True (butlast ?d)) (copy2 item ?d) s else (None, s))"
    by (rule ext) (simp add: copy_item_def Let_def)
  ultimately show ?thesis by simp
qed

lemma keeps_media_loop:
  assumes D: "D \<noteq> []" and p: "\<not> prefix D p" "\<not> prefix p D"
  shows "keeps p (\<lambda>s. if path_exists s S then for_each (rglob s S) (copy_item S D) s else (None, s))"
  unfolding keeps_def
proof (intro allI)
  fix s
  have "keeps p (for_each (rglob s S) (copy_item S D))"
    by (rule keeps_for_each) (rule keeps_copy_item[OF D p])
  then show "lookup (snd (if path_exists s S then for_each (rglob s S) (copy_item S D) s
                          else (None, s))) p = lookup s p"
    by (simp add: keeps_def)
qed

lemma keeps_move_media_files:
  assumes "\<not> prefix [''public''] p" "p \<noteq> []"
  shows "keeps p move_media_files"
  unfolding move_media_files_def
proof (rule keeps_for_each)
  fix x assume x: "x \<in> set texture_sources"
  obtain S D where xs: "x = (S, D)" by (cases x)
  have D: "D = [''public'', ''textures''] \<or> D = [''public'', ''models'']"
    using x xs by (auto simp: texture_sources_def)
  then have "prefix [''public''] D" by auto
  then have "\<not> prefix D p" using assms(1) by (meson prefix_order.trans)
  moreover have "\<not> prefix p D"
  proof
    assume "prefix p D"
    then obtain zs where "D = p @ zs" by (auto simp: prefix_def)
    with D assms show False by (cases p) auto
  qed
  moreover have "D \<noteq> []" using D by auto
  ultimately have "D \<noteq> []" "\<not> prefix D p" "\<not> prefix p D" by simp_all
  then have "keeps p (\<lambda>s. if path_exists s S then for_each (rglob s S) (copy_item S D) s else (None, s))"
    by (rule keeps_media_loop)
  then show "keeps p (case x of (src, dest) \<Rightarrow> \<lambda>fs.
       if path_exists fs src then for_each (rglob fs src) (copy_item src dest) fs else (None, fs))"
    using xs by simp
qed

lemma keeps_move_assets:
  assumes "\<not> prefix [''public''] p" "p \<noteq> []"
    and "\<And>c. c \<in> set aframe_components \<Longrightarrow>
           p \<noteq> [''src'', ''components'', c] \<and> p \<noteq> [''src'', ''components'', c, c]"
    and "\<And>u. u \<in> set util_files \<Longrightarrow> p \<noteq> [''src'', ''utils'', u] \<and> p \<noteq> [''src'', ''utils'', u, u]"
  shows "keeps p move_assets"
  unfolding move_assets_def
  by (intro keeps_seq keeps_for_each keeps_if keeps_copy_component keeps_copy_util
      keeps_move_media_files)
     (use assms in auto)

lemma keeps_outside_src:
  assumes "\<not> prefix [''public''] p" "\<not> prefix [''src''] p" "p \<noteq> []"
  shows "keeps p move_assets"
proof (rule keeps_move_assets[OF assms(1,3)])
  fix c
  have "prefix [''src''] [''src'', ''components'', c]" "prefix [''src''] [''src'', ''components'', c, c]"
    by simp_all
  then show "p \<noteq> [''src'', ''components'', c] \<and> p \<noteq> [''src'', ''components'', c, c]"
    using assms(2) by metis
next
  fix u
  have "prefix [''src''] [''src'', ''utils'', u]" "prefix [''src''] [''src'', ''utils'', u, u]"
    by simp_all
  then show "p \<noteq> [''src'', ''utils'', u] \<and> p \<noteq> [''src'', ''utils'', u, u]"
    using assms(2) by metis
qed

lemma keeps_restructure_run:
  assumes "p \<notin> set planned_directories" "\<not> prefix [''public''] p" "\<not> prefix [''src''] p" "p \<noteq> []"
    "p \<noteq> [''package.json'']" "p \<noteq> [''vercel.json'']" "p \<noteq> [''README.md'']"
  shows "keeps p restructure_run"
  unfolding restructure_run_def restructure_create_config_files_def
    restructure_create_documentation_def
  by (intro keeps_seq keeps_create_directory_structure[OF assms(1)]
      keeps_outside_src[OF assms(2,3,4)] keeps_write_text assms(5,6,7))

lemma restructure_fresh_lacks:
  "fst (restructure_run [([], Dir)]) = None
   \<and> \<not> path_exists (snd (restructure_run [([], Dir)])) [''.gitignore'']
   \<and> \<not> path_exists (snd (restructure_run [([], Dir)])) [''docs'', ''TECHNICAL.md'']"
  by code_simp

text \<open>
  C7 does not hold for \<^verbatim>\<open>restructure_project.py\<close>: its \<^verbatim>\<open>run()\<close> on an empty project
  directory completes and leaves neither a \<^verbatim>\<open>.gitignore\<close> nor a technical-documentation
  file behind.
\<close>

theorem documentation_counterexample:
  "\<not> (restructure_run [([], Dir)] = (None, snd (restructure_run [([], Dir)]))
       \<longrightarrow> path_exists (snd (restructure_run [([], Dir)])) [''.gitignore'']
         \<and> path_exists (snd (restructure_run [([], Dir)])) [''docs'', ''TECHNICAL.md''])"
  using restructure_fresh_lacks by (simp add: prod_eq_iff)

text \<open>
  C7, amended. A run of \<^verbatim>\<open>clean.py\<close> that completes leaves \<^verbatim>\<open>README.md\<close>,
  \<^verbatim>\<open>docs/TECHNICAL.md\<close> (inside the directory \<^verbatim>\<open>docs\<close>, which exists) and \<^verbatim>\<open>.gitignore\<close> with
  their fixed texts. A run of \<^verbatim>\<open>restructure_project.py\<close> that completes leaves \<^verbatim>\<open>README.md\<close>
  with its own fixed text, and no run of that script ever changes the entries of
  \<^verbatim>\<open>.gitignore\<close> and \<^verbatim>\<open>docs/TECHNICAL.md\<close>.
\<close>

theorem documentation_written:
  "(clean_run fs = (None, fs') \<longrightarrow>
      read_bytes fs' [''README.md''] = Some clean_readme_content
    \<and> is_dir fs' [''docs'']
    \<and> read_bytes fs' [''docs'', ''TECHNICAL.md''] = Some tech_doc
    \<and> read_bytes fs' [''.gitignore''] = Some gitignore_content)
   \<and> (restructure_run fs = (None, fs') \<longrightarrow>
      read_bytes fs' [''README.md''] = Some restructure_readme_content)
   \<and> lookup (snd (restructure_run fs)) [''.gitignore''] = lookup fs [''.gitignore'']
   \<and> lookup (snd (restructure_run fs)) [''docs'', ''TECHNICAL.md'']
       = lookup fs [''docs'', ''TECHNICAL.md'']"
proof (intro conjI impI)
  assume run: "clean_run fs = (None, fs')"
  show "read_bytes fs' [''README.md''] = Some clean_readme_content"
    "read_bytes fs' [''docs'', ''TECHNICAL.md''] = Some tech_doc"
    "read_bytes fs' [''.gitignore''] = Some gitignore_content"
    by (rule clean_run_written[OF run])+
  show "is_dir fs' [''docs'']"
    by (rule clean_run_written(6)[OF run]) (simp add: planned_directories_def new_structure_def)
next
  assume "restructure_run fs = (None, fs')"
  then show "read_bytes fs' [''README.md''] = Some restructure_readme_content"
    by (rule restructure_run_written)
next
  have "keeps [''.gitignore''] restructure_run"
    by (rule keeps_restructure_run) (simp_all add: planned_directories_def new_structure_def)
  then show "lookup (snd (restructure_run fs)) [''.gitignore''] = lookup fs [''.gitignore'']"
    by (simp add: keeps_def)
next
  have "keeps [''docs'', ''TECHNICAL.md''] restructure_run"
    by (rule keeps_restructure_run) (simp_all add: planned_directories_def new_structure_def)
  then show "lookup (snd (restructure_run fs)) [''docs'', ''TECHNICAL.md'']
       = lookup fs [''docs'', ''TECHNICAL.md'']"
    by (simp add: keeps_def)
qed

theorem documentation_written_witness:
  "clean_run [([], Dir)] = (None, snd (clean_run [([], Dir)]))
   \<and> read_bytes (snd (clean_run [([], Dir)])) [''docs'', ''TECHNICAL.md''] = Some tech_doc
   \<and> read_bytes (snd (clean_run [([], Dir)])) [''.gitignore''] = Some gitignore_content
   \<and> restructure_run [([], Dir)] = (None, snd (restructure_run [([], Dir)]))
   \<and> read_bytes (snd (restructure_run [([], Dir)])) [''README.md'']
       = Some restructure_readme_content"
  using documentation_written[of "[([], Dir)]" "snd (clean_run [([], Dir)])"]
    documentation_written[of "[([], Dir)]" "snd (restructure_run [([], Dir)])"]
    completed[OF clean_run_completes_fresh] completed[OF restructure_run_completes_fresh]
  by simp

section \<open>Runs that cannot complete\<close>

lemma is_dir_base: "is_dir fs [] = based fs"
  by (simp add: is_dir_iff based_def parent_error_def)

lemma planned_file_blocks:
  assumes f: "is_file fs d" and d: "d \<in> set planned_directories"
  shows "fst (clean_run fs) \<noteq> None" "fst (restructure_run fs) \<noteq> None"
proof -
  from f obtain b where b: "lookup fs d = Some (File b)" by (auto simp: is_file_iff)
  show "fst (clean_run fs) \<noteq> None"
  proof
    assume "fst (clean_run fs) = None"
    then have run: "clean_run fs = (None, snd (clean_run fs))" by (rule completed)
    have "is_dir (snd (clean_run fs)) d" by (rule clean_run_written(6)[OF run d])
    moreover have "\<exists>b'. lookup (snd (clean_run fs)) d = Some (File b')"
      by (rule le_fs_File[OF clean_run_le b])
    ultimately show False by (auto simp: is_dir_iff)
  qed
  show "fst (restructure_run fs) \<noteq> None"
  proof
    assume "fst (restructure_run fs) = None"
    then have run: "restructure_run fs = (None, snd (restructure_run fs))" by (rule completed)
    have "is_dir (snd (restructure_run fs)) d" by (rule restructure_run_written(4)[OF run d])
    moreover have "\<exists>b'. lookup (snd (restructure_run fs)) d = Some (File b')"
      by (rule le_fs_File[OF restructure_run_le b])
    ultimately show False by (auto simp: is_dir_iff)
  qed
qed

lemma unbased_blocks:
  assumes "\<not> based fs"
  shows "fst (clean_run fs) \<noteq> None" "fst (restructure_run fs) \<noteq> None"
proof -
  obtain e where "create_directory_structure fs = (Some e, fs)"
    using unbased_create_directory_structure[OF assms] by blast
  then show "fst (clean_run fs) \<noteq> None" "fst (restructure_run fs) \<noteq> None"
    by (simp_all add: clean_run_def restructure_run_def seq_def)
qed

section \<open>The exit status\<close>

lemma short_flags_status: "short_flags e = 0 \<or> short_flags e = 2"
  by (induction e rule: short_flags.induct) auto

lemma take_help_status: "take_help ostr ex = 0 \<or> take_help ostr ex = 2"
  using short_flags_status by (auto simp: take_help_def split: option.splits)

lemma consume_status: "consume path extras items = SystemExit n \<Longrightarrow> n = 0 \<or> n = 2"
proof (induction path extras items rule: consume.induct)
  case (1 path extras)
  then show ?case by (simp split: if_splits)
next
  case (2 path extras c s rest)
  then show ?case
    using take_help_status
    by (auto split: arg_class.splits option_action.splits option.splits list.splits if_splits)
qed

lemma parse_args_status: "parse_args argv = SystemExit n \<Longrightarrow> n = 0 \<or> n = 2"
  by (auto simp: parse_args_def dest: consume_status split: if_splits)

lemma parse_args_default: "parse_args [] = Namespace ''.''"
  by (simp add: parse_args_def)

lemma parse_optional_path: "parse_optional ''--path'' = Optional StoreAction ''--path'' None"
  by (simp add: parse_optional_def option_strings_def action_of_def)

lemma parse_optional_positional: "a = [] \<or> hd a \<noteq> CHR ''-'' \<Longrightarrow> parse_optional a = Positional"
  by (auto simp: parse_optional_def)

lemma positional_not_marker: "a = [] \<or> hd a \<noteq> CHR ''-'' \<Longrightarrow> a \<noteq> ''--''"
  by auto

lemma parse_args_path:
  assumes "d = [] \<or> hd d \<noteq> CHR ''-''"
  shows "parse_args [''--path'', d] = Namespace d"
  using parse_optional_positional[OF assms] positional_not_marker[OF assms]
  by (simp add: parse_args_def parse_optional_path)

lemma parse_args_path_eq: "parse_args [''--path='' @ d] = Namespace d"
  by (simp add: parse_args_def parse_optional_def option_strings_def action_of_def partition_eq_def)

lemma parse_args_positional:
  assumes "a = [] \<or> hd a \<noteq> CHR ''-''"
  shows "parse_args [a] = SystemExit 2"
  using parse_optional_positional[OF assms] positional_not_marker[OF assms]
  by (simp add: parse_args_def)

lemma parse_args_no_value: "parse_args [''--path''] = SystemExit 2"
  by (simp add: parse_args_def parse_optional_path)

lemma parse_args_help: "parse_args [''-h''] = SystemExit 0" "parse_args [''--help''] = SystemExit 0"
  by (simp_all add: parse_args_def parse_optional_def option_strings_def action_of_def take_help_def)


lemma parse_args_unknown: "parse_args [''--verbose''] = SystemExit 2"
  by code_simp

lemma blocked_project_exits_1:
  "clean_main [] (\<lambda>d. [([], Dir), ([''public''], File ''x'')]) False = 1
   \<and> restructure_main [] (\<lambda>d. [([], Dir), ([''public''], File ''x'')]) False = 1"
  by code_simp

text \<open>
  C8 does not hold: when a regular file occupies the name \<^verbatim>\<open>public\<close> in the base
  directory, \<^verbatim>\<open>mkdir(exist_ok=True)\<close> raises \<^verbatim>\<open>FileExistsError\<close>, nothing catches it, and both
  scripts, started with no argument and with no fault of the operating system, end with
  exit status 1.
\<close>

theorem exit_status_counterexample:
  "\<not> (clean_main [] (\<lambda>d. [([], Dir), ([''public''], File ''x'')]) False = 0
       \<and> restructure_main [] (\<lambda>d. [([], Dir), ([''public''], File ''x'')]) False = 0)"
  using blocked_project_exits_1 by simp

text \<open>
  C8, amended. The command line has the one flag \<^verbatim>\<open>--path\<close>, which is optional: with no
  argument the base path is \<^verbatim>\<open>.\<close>, and \<^verbatim>\<open>--path d\<close> (for \<^verbatim>\<open>d\<close> not starting with a dash) and
  \<^verbatim>\<open>--path=d\<close> make it \<^verbatim>\<open>d\<close>. There is no subcommand and no other flag: a lone positional
  argument, \<^verbatim>\<open>--verbose\<close>, and \<^verbatim>\<open>--path\<close> with no value are usage errors, while \<^verbatim>\<open>-h\<close> and
  \<^verbatim>\<open>--help\<close> ask for the help text. When the parser ends the process, it does so before
  \<^verbatim>\<open>run()\<close> is called and whatever the file system holds, with status 0 (help) or 2
  (usage error). Otherwise the exit status is 0 or 1; it is 1 whenever the base path is
  not an existing directory, whenever a regular file has one of the planned directory
  names, and whenever the operating system faults; and it is 0 only if no step of
  \<^verbatim>\<open>run()\<close> raises.
\<close>

theorem exit_status:
  "parse_args [] = Namespace ''.''
   \<and> (\<forall>d. d = [] \<or> hd d \<noteq> CHR ''-'' \<longrightarrow> parse_args [''--path'', d] = Namespace d)
   \<and> (\<forall>d. parse_args [''--path='' @ d] = Namespace d)
   \<and> (\<forall>a. a = [] \<or> hd a \<noteq> CHR ''-'' \<longrightarrow> parse_args [a] = SystemExit 2)
   \<and> parse_args [''--verbose''] = SystemExit 2
   \<and> parse_args [''--path''] = SystemExit 2
   \<and> parse_args [''-h''] = SystemExit 0
   \<and> parse_args [''--help''] = SystemExit 0
   \<and> (\<forall>n. parse_args argv = SystemExit n \<longrightarrow>
          (n = 0 \<or> n = 2)
        \<and> clean_main argv disk os_fault = n
        \<and> restructure_main argv disk os_fault = n)
   \<and> (\<forall>d. parse_args argv = Namespace d \<longrightarrow>
          (clean_main argv disk os_fault = 0 \<or> clean_main argv disk os_fault = 1)
        \<and> (restructure_main argv disk os_fault = 0 \<or> restructure_main argv disk os_fault = 1)
        \<and> (\<not> is_dir (disk d) [] \<longrightarrow>
              clean_main argv disk os_fault = 1 \<and> restructure_main argv disk os_fault = 1)
        \<and> (\<forall>p\<in>set planned_directories. is_file (disk d) p \<longrightarrow>
              clean_main argv disk os_fault = 1 \<and> restructure_main argv disk os_fault = 1)
        \<and> (os_fault \<longrightarrow>
              clean_main argv disk os_fault = 1 \<and> restructure_main argv disk os_fault = 1)
        \<and> (clean_main argv disk os_fault = 0 \<longrightarrow> fst (clean_run (disk d)) = None \<and> \<not> os_fault)
        \<and> (restructure_main argv disk os_fault = 0 \<longrightarrow>
              fst (restructure_run (disk d)) = None \<and> \<not> os_fault))"
proof -
  have exits: "(n = 0 \<or> n = 2) \<and> clean_main argv disk os_fault = n
      \<and> restructure_main argv disk os_fault = n"
    if "parse_args argv = SystemExit n" for n
    using that parse_args_status[OF that] by (simp add: clean_main_def restructure_main_def)
  have runs: "(clean_main argv disk os_fault = 0 \<or> clean_main argv disk os_fault = 1)
        \<and> (restructure_main argv disk os_fault = 0 \<or> restructure_main argv disk os_fault = 1)
        \<and> (\<not> is_dir (disk d) [] \<longrightarrow>
              clean_main argv disk os_fault = 1 \<and> restructure_main argv disk os_fault = 1)
        \<and> (\<forall>p\<in>set planned_directories. is_file (disk d) p \<longrightarrow>
              clean_main argv disk os_fault = 1 \<and> restructure_main argv disk os_fault = 1)
        \<and> (os_fault \<longrightarrow>
              clean_main argv disk os_fault = 1 \<and> restructure_main argv disk os_fault = 1)
        \<and> (clean_main argv disk os_fault = 0 \<longrightarrow> fst (clean_run (disk d)) = None \<and> \<not> os_fault)
        \<and> (restructure_main argv disk os_fault = 0 \<longrightarrow>
              fst (restructure_run (disk d)) = None \<and> \<not> os_fault)"
    if ns: "parse_args argv = Namespace d" for d
  proof -
    have c: "clean_main argv disk os_fault =
        (case fst (clean_run (disk d)) of None \<Rightarrow> if os_fault then 1 else 0 | Some e \<Rightarrow> 1)"
      by (simp add: clean_main_def ns)
    have r: "restructure_main argv disk os_fault =
        (case fst (restructure_run (disk d)) of None \<Rightarrow> if os_fault then 1 else 0 | Some e \<Rightarrow> 1)"
      by (simp add: restructure_main_def ns)
    have 1: "clean_main argv disk os_fault = 0 \<or> clean_main argv disk os_fault = 1"
      by (simp add: c split: option.splits)
    have 2: "restructure_main argv disk os_fault = 0 \<or> restructure_main argv disk os_fault = 1"
      by (simp add: r split: option.splits)
    have 3: "clean_main argv disk os_fault = 1 \<and> restructure_main argv disk os_fault = 1"
      if "\<not> is_dir (disk d) []"
    proof -
      from that have "\<not> based (disk d)" by (simp add: is_dir_base)
      from unbased_blocks[OF this] show ?thesis by (auto simp: c r split: option.splits)
    qed
    have 4: "clean_main argv disk os_fault = 1 \<and> restructure_main argv disk os_fault = 1"
      if "p \<in> set planned_directories" "is_file (disk d) p" for p
      using planned_file_blocks[OF that(2,1)] by (auto simp: c r split: option.splits)
    have 5: "clean_main argv disk os_fault = 1 \<and> restructure_main argv disk os_fault = 1"
      if os_fault
      unfolding c r using that by (simp split: option.splits)
    have 6: "fst (clean_run (disk d)) = None \<and> \<not> os_fault"
      if "clean_main argv disk os_fault = 0"
      using that by (simp add: c split: option.splits if_splits)
    have 7: "fst (restructure_run (disk d)) = None \<and> \<not> os_fault"
      if "restructure_main argv disk os_fault = 0"
      using that by (simp add: r split: option.splits if_splits)
    from 1 2 3 4 5 6 7 show ?thesis by blast
  qed
  from exits runs show ?thesis
    using parse_args_default parse_args_path parse_args_path_eq parse_args_positional
      parse_args_unknown parse_args_no_value parse_args_help
    by blast
qed

lemma fresh_project_exits_0:
  "clean_main [''--path'', ''site''] (\<lambda>d. if d = ''site'' then [([], Dir)] else []) False = 0
   \<and> restructure_main [''--path'', ''site''] (\<lambda>d. if d = ''site'' then [([], Dir)] else []) False = 0"
  by code_simp

theorem exit_status_witness:
  "parse_args [''--path'', ''site''] = Namespace ''site''
   \<and> parse_args [''build''] = SystemExit 2
   \<and> clean_main [''--verbose''] (\<lambda>d. [([], Dir)]) False = 2
   \<and> restructure_main [''--verbose''] (\<lambda>d. [([], Dir)]) False = 2
   \<and> clean_main [''-h''] (\<lambda>d. []) False = 0
   \<and> restructure_main [''-h''] (\<lambda>d. []) False = 0
   \<and> \<not> is_dir [] []
   \<and> clean_main [] (\<lambda>d. []) False = 1
   \<and> restructure_main [] (\<lambda>d. []) False = 1
   \<and> [''src''] \<in> set planned_directories
   \<and> is_file [([], Dir), ([''src''], File ''x'')] [''src'']
   \<and> clean_main [] (\<lambda>d. [([], Dir), ([''src''], File ''x'')]) False = 1
   \<and> restructure_main [] (\<lambda>d. [([], Dir), ([''src''], File ''x'')]) False = 1
   \<and> clean_main [] (\<lambda>d. [([], Dir)]) True = 1
   \<and> restructure_main [] (\<lambda>d. [([], Dir)]) True = 1
   \<and> clean_main [''--path'', ''site''] (\<lambda>d. if d = ''site'' then [([], Dir)] else []) False = 0
   \<and> fst (clean_run [([], Dir)]) = None
   \<and> restructure_main [''--path'', ''site''] (\<lambda>d. if d = ''site'' then [([], Dir)] else []) False = 0
   \<and> fst (restructure_run [([], Dir)]) = None"
proof -
  have 1: "\<not> is_dir [] []" by (simp add: is_dir_def stat_def parent_error_def lookup_def)
  have 2: "[''src''] \<in> set planned_directories"
    by (simp add: planned_directories_def new_structure_def)
  have 3: "is_file [([], Dir), ([''src''], File ''x'')] [''src'']"
    by (simp add: is_file_def stat_def parent_error_def lookup_def)
  have 4: "''site'' = [] \<or> hd ''site'' \<noteq> CHR ''-''" "''build'' = [] \<or> hd ''build'' \<noteq> CHR ''-''"
    by simp_all
  note a = exit_status[of "[''--verbose'']" "\<lambda>d. [([], Dir)]" False]
  note b = exit_status[of "[''-h'']" "\<lambda>d. []" False]
  note c = exit_status[of "[]" "\<lambda>d. []" False]
  note d = exit_status[of "[]" "\<lambda>d. [([], Dir), ([''src''], File ''x'')]" False]
  note e = exit_status[of "[]" "\<lambda>d. [([], Dir)]" True]
  note f = exit_status[of "[''--path'', ''site'']" "\<lambda>d. if d = ''site'' then [([], Dir)] else []" False]
  have p1: "parse_args [''--path'', ''site''] = Namespace ''site''" using a 4 by blast
  have p2: "parse_args [''build''] = SystemExit 2" using a 4 by blast
  have p3: "clean_main [''--verbose''] (\<lambda>d. [([], Dir)]) False = 2
      \<and> restructure_main [''--verbose''] (\<lambda>d. [([], Dir)]) False = 2" using a by blast
  have p4: "clean_main [''-h''] (\<lambda>d. []) False = 0 \<and> restructure_main [''-h''] (\<lambda>d. []) False = 0"
    using b by blast
  have p5: "clean_main [] (\<lambda>d. []) False = 1 \<and> restructure_main [] (\<lambda>d. []) False = 1"
    using c 1 by blast
  have p6: "clean_main [] (\<lambda>d. [([], Dir), ([''src''], File ''x'')]) False = 1
      \<and> restructure_main [] (\<lambda>d. [([], Dir), ([''src''], File ''x'')]) False = 1"
    using d 2 3 by blast
  have p7: "clean_main [] (\<lambda>d. [([], Dir)]) True = 1 \<and> restructure_main [] (\<lambda>d. [([], Dir)]) True = 1"
    using e by blast
  have p8: "fst (clean_run [([], Dir)]) = None \<and> fst (restructure_run [([], Dir)]) = None"
    using f p1 fresh_project_exits_0 by simp
  from 1 2 3 p1 p2 p3 p4 p5 p6 p7 p8 fresh_project_exits_0 show ?thesis by simp
qed

section \<open>The directory plan\<close>

lemma for_each_ok:
  assumes "I s"
    and "\<And>x u. x \<in> set xs \<Longrightarrow> I u \<Longrightarrow> \<exists>u'. body x u = (None, u') \<and> I u'"
  shows "\<exists>s'. for_each xs body s = (None, s') \<and> I s'"
  using assms
proof (induction xs arbitrary: s)
  case Nil
  then show ?case by simp
next
  case (Cons x xs)
  obtain u where u: "body x s = (None, u)" "I u" using Cons.prems by auto
  have "\<exists>s'. for_each xs body u = (None, s') \<and> I s'"
    by (rule Cons.IH[OF u(2)]) (use Cons.prems(2) in auto)
  with u(1) show ?case by simp
qed

lemma mkdir_ok:
  assumes pe: "parent_error u p = None" and nf: "\<And>b. lookup u p \<noteq> Some (File b)"
  shows "\<exists>u'. mkdir False True p u = (None, u') \<and> (u' = u \<or> u' = AList.update p Dir u) \<and> is_dir u' p"
proof (cases "lookup u p")
  case None
  then have "os_mkdir p u = (None, AList.update p Dir u)" using pe by (simp add: os_mkdir_def)
  then have "mkdir False True p u = (None, AList.update p Dir u)"
    by (subst mkdir_unfold) simp
  moreover have "is_dir (AList.update p Dir u) p" using pe by (simp add: is_dir_iff)
  ultimately show ?thesis by blast
next
  case (Some n)
  then have "lookup u p = Some Dir" using nf by (cases n) auto
  then have d: "is_dir u p" using pe by (simp add: is_dir_iff)
  then show ?thesis using mkdir_existing[OF d] by blast
qed

lemma create_directory_structure_ok:
  assumes b: "based s" and nf: "\<And>d b. d \<in> set planned_directories \<Longrightarrow> lookup s d \<noteq> Some (File b)"
  shows "\<exists>s'. create_directory_structure s = (None, s')"
proof -
  let ?I = "\<lambda>u. based u \<and> (\<forall>d\<in>set planned_directories. \<forall>b. lookup u d \<noteq> Some (File b))"
  have upd: "?I (AList.update p Dir u)" if "?I u" "p \<noteq> []" for u p
    using that by (auto simp: based_def)
  have "\<exists>s'. for_each new_structure (\<lambda>(main_dir, subdirs).
       seq (mkdir False True [main_dir])
           (for_each subdirs (\<lambda>subdir. mkdir False True [main_dir, subdir]))) s = (None, s') \<and> ?I s'"
  proof (rule for_each_ok[where I = ?I])
    show "?I s" using b nf by blast
  next
    fix x u assume x: "x \<in> set new_structure" and I: "?I u"
    obtain m subs where xm: "x = (m, subs)" by (cases x)
    have pm: "[m] \<in> set planned_directories" using x xm unfolding mem_planned_directories by blast
    have "parent_error u [m] = None" using I by (simp add: parent_error_def based_def)
    from mkdir_ok[OF this] I pm
    obtain v where v: "mkdir False True [m] u = (None, v)" "v = u \<or> v = AList.update [m] Dir u"
      "is_dir v [m]" by blast
    have Iv: "?I v \<and> is_dir v [m]" using v(2,3) I upd[of u "[m]"] by auto
    have "\<exists>w. for_each subs (\<lambda>subdir. mkdir False True [m, subdir]) v = (None, w)
        \<and> (?I w \<and> is_dir w [m])"
    proof (rule for_each_ok[where I = "\<lambda>w. ?I w \<and> is_dir w [m]", OF Iv])
      fix sub w assume sub: "sub \<in> set subs" and Iw: "?I w \<and> is_dir w [m]"
      have ps: "[m, sub] \<in> set planned_directories"
        using x xm sub unfolding mem_planned_directories by blast
      have "parent_error w [m, sub] = None"
        using is_dir_parent_error[of "[m, sub]" w] Iw by simp
      from mkdir_ok[OF this] Iw ps
      obtain w' where w': "mkdir False True [m, sub] w = (None, w')"
        "w' = w \<or> w' = AList.update [m, sub] Dir w" by blast
      have "is_dir w' [m]"
        using w'(2) Iw by (auto simp: is_dir_iff parent_error_None strict_prefix_def)
      moreover have "?I w'" using w'(2) Iw upd[of w "[m, sub]"] by auto
      ultimately show "\<exists>w'. mkdir False True [m, sub] w = (None, w') \<and> (?I w' \<and> is_dir w' [m])"
        using w'(1) by blast
    qed
    then obtain w where "for_each subs (\<lambda>subdir. mkdir False True [m, subdir]) v = (None, w)" "?I w"
      by blast
    then show "\<exists>u'. (case x of (main_dir, subdirs) \<Rightarrow>
         seq (mkdir False True [main_dir])
             (for_each subdirs (\<lambda>subdir. mkdir False True [main_dir, subdir]))) u = (None, u')
         \<and> ?I u'"
      using v(1) xm by (auto simp: seq_def)
  qed
  then show ?thesis by (auto simp: create_directory_structure_def)
qed

text \<open>
  C2. Whatever the file system was before, after a run of either script that completes
  every directory of the fixed plan exists. A directory that exists before a run still
  exists after it (whether the run completes or raises), and an existing directory is no
  error: on every file system whose base path is a directory and where none of the
  planned names is taken by a regular file, the creation of the plan completes.
\<close>

theorem directory_plan_exists:
  "(clean_run fs = (None, fs') \<or> restructure_run fs = (None, fs')
      \<longrightarrow> (\<forall>d\<in>set planned_directories. is_dir fs' d))
   \<and> (\<forall>d. is_dir fs d \<longrightarrow> is_dir (snd (clean_run fs)) d \<and> is_dir (snd (restructure_run fs)) d)
   \<and> (is_dir fs [] \<and> (\<forall>d\<in>set planned_directories. \<forall>b. lookup fs d \<noteq> Some (File b))
      \<longrightarrow> (\<exists>s. create_directory_structure fs = (None, s)))
   \<and> set planned_directories =
        {[''public''], [''public'', ''assets''], [''public'', ''models''],
         [''public'', ''textures''], [''public'', ''audio''],
         [''src''], [''src'', ''components''], [''src'', ''utils''], [''src'', ''styles''],
         [''docs'']}"
proof (intro conjI impI allI ballI)
  fix d assume "clean_run fs = (None, fs') \<or> restructure_run fs = (None, fs')"
    and "d \<in> set planned_directories"
  then show "is_dir fs' d" using clean_run_written(6) restructure_run_written(4) by blast
next
  fix d assume "is_dir fs d"
  then show "is_dir (snd (clean_run fs)) d" "is_dir (snd (restructure_run fs)) d"
    using le_fs_is_dir[OF clean_run_le] le_fs_is_dir[OF restructure_run_le] by blast+
next
  assume "is_dir fs [] \<and> (\<forall>d\<in>set planned_directories. \<forall>b. lookup fs d \<noteq> Some (File b))"
  then show "\<exists>s. create_directory_structure fs = (None, s)"
    using create_directory_structure_ok[of fs] by (simp add: is_dir_base)
next
  show "set planned_directories =
        {[''public''], [''public'', ''assets''], [''public'', ''models''],
         [''public'', ''textures''], [''public'', ''audio''],
         [''src''], [''src'', ''components''], [''src'', ''utils''], [''src'', ''styles''],
         [''docs'']}"
    by (simp add: planned_directories_def new_structure_def insert_commute)
qed

theorem directory_plan_exists_witness:
  "clean_run [([], Dir), ([''docs''], Dir)] = (None, snd (clean_run [([], Dir), ([''docs''], Dir)]))
   \<and> [''docs''] \<in> set planned_directories
   \<and> is_dir [([], Dir), ([''docs''], Dir)] [''docs'']
   \<and> is_dir (snd (clean_run [([], Dir), ([''docs''], Dir)])) [''docs'']
   \<and> is_dir (snd (clean_run [([], Dir), ([''docs''], Dir)])) [''public'', ''audio'']
   \<and> is_dir [([], Dir), ([''docs''], Dir)] []
   \<and> (\<exists>s. create_directory_structure [([], Dir), ([''docs''], Dir)] = (None, s))"
proof -
  let ?fs = "[([], Dir), ([''docs''], Dir)]"
  have run: "fst (clean_run ?fs) = None" by code_simp
  have 1: "is_dir ?fs [''docs'']" "is_dir ?fs []"
    by (simp_all add: is_dir_def stat_def parent_error_def lookup_def)
  have 2: "\<forall>d\<in>set planned_directories. \<forall>b. lookup ?fs d \<noteq> Some (File b)"
    by (simp add: lookup_def planned_directories_def new_structure_def)
  show ?thesis
    using directory_plan_exists[of ?fs "snd (clean_run ?fs)"] completed[OF run] 1 2
    by simp
qed

section \<open>What the copy loops leave behind\<close>

lemma copy2_lands:
  assumes st: "statics_ok st" and cp: "copy_pair src dst"
    and run: "copy2 src dst u = (None, u')" and le: "le_fs st u' t"
  shows "\<exists>b. read_bytes u src = Some b
       \<and> read_bytes t (if is_dir u dst then dst @ [basename src] else dst) = Some b"
proof -
  let ?d = "if is_dir u dst then dst @ [basename src] else dst"
  from copy2_cases[OF cp run] obtain b where b: "read_bytes u src = Some b"
    "write_text ?d b u = (None, u')" by blast
  have np: "\<not> protected ?d"
    using copy_pair_unprotected[OF cp, of "[]"] copy_pair_unprotected[OF cp, of "[basename src]"]
    by auto
  have w: "wants st u ?d b" unfolding wants_def using cp b(1) by auto
  note props = write_text_props[OF st np w b(2)]
  have "wants st u' ?d b" using w le_fs_wants[OF props(1)] by simp
  then have "lookup t ?d = Some (File b)" using props(4) le_fs_final[OF le] by blast
  moreover have "parent_error t ?d = None" using props(4) le_fs_parent_error[OF le] by blast
  ultimately show ?thesis using b(1) by (auto simp: read_bytes_iff)
qed

lemma le_fs_read_protected:
  "le_fs st s t \<Longrightarrow> protected p \<Longrightarrow> read_bytes t p = read_bytes s p"
  by (simp add: read_bytes_def le_fs_stat)

lemma read_bytes_exists: "read_bytes s p = Some b \<Longrightarrow> path_exists s p"
  by (simp add: read_bytes_iff path_exists_iff)

lemma read_bytes_is_file: "read_bytes s p = Some b \<Longrightarrow> is_file s p"
  by (simp add: read_bytes_iff is_file_iff)

lemma no_new_dirs_is_dir:
  assumes n: "no_new_dirs A" and run: "A s = (r, s')" and d: "is_dir s' p"
  shows "is_dir s p"
proof -
  have "lookup s q = Some Dir" if "lookup s' q = Some Dir" for q
    using no_new_dirsD[OF n run, of q] that by blast
  then show ?thesis using d by (simp add: is_dir_iff parent_error_None)
qed

text \<open>
  Inside a loop of copies: the step for the element \<open>x\<close> ran in a state that still
  agrees with the starting state on the legacy trees, and what it wrote is final.
\<close>

lemma copy_loop_reach:
  assumes st: "statics_ok st"
    and run: "for_each xs body s = (None, s')" and x: "x \<in> set xs"
    and I: "based s" "le_fs st fs s" "J s"
    and good: "\<And>y. y \<in> set xs \<Longrightarrow> good st (body y)"
    and J: "\<And>y u r u'. y \<in> set xs \<Longrightarrow> based u \<Longrightarrow> le_fs st fs u \<Longrightarrow> J u
              \<Longrightarrow> body y u = (r, u') \<Longrightarrow> le_fs st u u' \<Longrightarrow> J u'"
  shows "\<exists>u u'. based u \<and> le_fs st fs u \<and> J u \<and> body x u = (None, u') \<and> le_fs st u' s'"
proof -
  let ?I = "\<lambda>u. based u \<and> le_fs st fs u \<and> J u"
  have "\<exists>u u'. ?I u \<and> body x u = (None, u') \<and> le_fs st u' s'"
  proof (rule for_each_reach[where I = ?I and R = "le_fs st", OF run x])
    show "?I s" using I by simp
  next
    fix y u r u' assume y: "y \<in> set xs" and Iu: "?I u" and b: "body y u = (r, u')"
    have g: "(based u' \<and> le_fs st fs u') \<and> le_fs st u u'"
      by (rule good_inv[OF good[OF y] _ b]) (use Iu in simp)
    moreover have "J u'" using J[OF y _ _ _ b] Iu g by blast
    ultimately show "?I u' \<and> le_fs st u u'" by simp
  qed (auto intro: le_fs_refl le_fs_trans)
  then show ?thesis by blast
qed

lemma component_copied:
  assumes st: "statics_ok st"
    and run: "for_each aframe_components copy_component s = (None, s')"
    and c: "c \<in> set aframe_components"
    and s: "based s"
    and src: "read_bytes s [''Campus-Tour-NYUAD-main'', c] = Some b"
    and t: "le_fs st s' t"
  shows "read_bytes t (if is_dir s [''src'', ''components'', c]
                       then [''src'', ''components'', c, c] else [''src'', ''components'', c]) = Some b"
proof -
  let ?src = "[''Campus-Tour-NYUAD-main'', c]" and ?dst = "[''src'', ''components'', c]"
  let ?J = "\<lambda>u. is_dir u ?dst = is_dir s ?dst"
  have "\<exists>u u'. based u \<and> le_fs st s u \<and> ?J u \<and> copy_component c u = (None, u') \<and> le_fs st u' s'"
  proof (rule copy_loop_reach[OF st run c s le_fs_refl, where J = ?J])
    show "?J s" by simp
  next
    fix y show "good st (copy_component y)" by (rule good_copy_component[OF st])
  next
    fix y u r u' assume J: "?J u" and b: "copy_component y u = (r, u')" and le: "le_fs st u u'"
    show "?J u'"
      using J le_fs_is_dir[OF le, of ?dst] no_new_dirs_is_dir[OF no_new_dirs_copy_component b, of ?dst]
      by blast
  qed
  then obtain u u' where u: "based u" "le_fs st s u" "?J u" "copy_component c u = (None, u')"
    "le_fs st u' s'" by blast
  have ru: "read_bytes u ?src = Some b"
    using le_fs_read_protected[OF u(2) copy_pair_protected[OF copy_pair_component]] src by simp
  then have "copy2 ?src ?dst u = (None, u')"
    using u(4) read_bytes_exists[OF ru] by (simp add: copy_component_def)
  from copy2_lands[OF st copy_pair_component this le_fs_trans[OF u(5) t]] ru
  have land: "read_bytes t (if is_dir u ?dst then ?dst @ [basename ?src] else ?dst) = Some b"
    by simp
  have bn: "basename ?src = c" by (simp add: basename_def)
  show ?thesis using land u(3) bn by (auto split: if_splits)
qed

lemma util_copied:
  assumes st: "statics_ok st"
    and run: "for_each util_files copy_util s = (None, s')"
    and c: "c \<in> set util_files"
    and s: "based s"
    and src: "read_bytes s [''webxr-samples-main'', ''js'', c] = Some b"
    and t: "le_fs st s' t"
  shows "read_bytes t (if is_dir s [''src'', ''utils'', c]
                       then [''src'', ''utils'', c, c] else [''src'', ''utils'', c]) = Some b"
proof -
  let ?src = "webxr_utils @ [c]" and ?dst = "[''src'', ''utils'', c]"
  let ?J = "\<lambda>u. is_dir u ?dst = is_dir s ?dst"
  have srcs: "?src = [''webxr-samples-main'', ''js'', c]" by (simp add: webxr_utils_def)
  have "\<exists>u u'. based u \<and> le_fs st s u \<and> ?J u \<and> copy_util c u = (None, u') \<and> le_fs st u' s'"
  proof (rule copy_loop_reach[OF st run c s le_fs_refl, where J = ?J])
    show "?J s" by simp
  next
    fix y show "good st (copy_util y)" by (rule good_copy_util[OF st])
  next
    fix y u r u' assume J: "?J u" and b: "copy_util y u = (r, u')" and le: "le_fs st u u'"
    show "?J u'"
      using J le_fs_is_dir[OF le, of ?dst] no_new_dirs_is_dir[OF no_new_dirs_copy_util b, of ?dst]
      by blast
  qed
  then obtain u u' where u: "based u" "le_fs st s u" "?J u" "copy_util c u = (None, u')"
    "le_fs st u' s'" by blast
  have "read_bytes u ?src = read_bytes s ?src"
    by (rule le_fs_read_protected[OF u(2) copy_pair_protected[OF copy_pair_util]])
  then have ru: "read_bytes u ?src = Some b" using src by (simp add: webxr_utils_def)
  then have "copy2 ?src ?dst u = (None, u')"
    using u(4) read_bytes_exists[OF ru] by (simp add: copy_util_def)
  from copy2_lands[OF st copy_pair_util this le_fs_trans[OF u(5) t]] ru
  have land: "read_bytes t (if is_dir u ?dst then ?dst @ [basename ?src] else ?dst) = Some b"
    by simp
  show ?thesis using land u(3) by (auto split: if_splits)
qed

lemma seq_snd:
  "snd (seq A B s) = (if fst (A s) = None then snd (B (snd (A s))) else snd (A s))"
  by (cases "A s") (auto simp: seq_def split: option.splits)

lemma keeps_after: "keeps p B \<Longrightarrow> lookup (snd (seq A B s)) p = lookup (snd (A s)) p"
  by (simp add: seq_snd keeps_def)

lemma good_utils_step:
  assumes st: "statics_ok st"
  shows "good st (\<lambda>fs. if path_exists fs webxr_utils then for_each util_files copy_util fs
                       else (None, fs))"
  by (rule good_if[OF good_for_each[OF good_copy_util[OF st]]])
     (simp add: le_fs_path_exists protected_def webxr_utils_def old_dirs_def)

lemma move_assets_stages:
  assumes st: "statics_ok st" and s: "based s1"
    and run: "move_assets s1 = (None, s2)" and t: "le_fs st s2 t"
  obtains a b where
    "for_each aframe_components copy_component s1 = (None, a)" "based a" "le_fs st s1 a"
    "le_fs st a t"
    "(if path_exists a webxr_utils then for_each util_files copy_util a else (None, a)) = (None, b)"
    "le_fs st b t"
proof -
  note gk = good_for_each[OF good_copy_component[OF st], of aframe_components]
  note gu = good_utils_step[OF st]
  note gm = good_move_media_files[OF st]
  from seq_fix[OF gk good_seq[OF gu gm] s run[unfolded move_assets_def] t]
  obtain a where a: "for_each aframe_components copy_component s1 = (None, a)" "based a"
    "le_fs st s1 a" "le_fs st a t"
    "seq (\<lambda>fs. if path_exists fs webxr_utils then for_each util_files copy_util fs else (None, fs))
         move_media_files a = (None, s2)"
    by blast
  from seq_fix[OF gu gm a(2) a(5) t]
  obtain b where b:
    "(if path_exists a webxr_utils then for_each util_files copy_util a else (None, a)) = (None, b)"
    "le_fs st b t"
    by blast
  show thesis by (rule that[OF a(1,2,3,4) b])
qed

lemma move_assets_copies:
  assumes st: "statics_ok st" and s: "based s1"
    and run: "move_assets s1 = (None, s2)" and t: "le_fs st s2 t"
  shows "c \<in> set aframe_components \<Longrightarrow> read_bytes s1 [''Campus-Tour-NYUAD-main'', c] = Some b
      \<Longrightarrow> read_bytes t (if is_dir s1 [''src'', ''components'', c]
                        then [''src'', ''components'', c, c] else [''src'', ''components'', c]) = Some b"
    and "c \<in> set util_files \<Longrightarrow> read_bytes s1 [''webxr-samples-main'', ''js'', c] = Some b
      \<Longrightarrow> is_dir s1 [''src'', ''utils'']
      \<Longrightarrow> read_bytes t (if lookup s1 [''src'', ''utils'', c] = Some Dir
                        then [''src'', ''utils'', c, c] else [''src'', ''utils'', c]) = Some b"
proof -
  from st s run t obtain a b' where ab:
    "for_each aframe_components copy_component s1 = (None, a)" "based a" "le_fs st s1 a"
    "le_fs st a t"
    "(if path_exists a webxr_utils then for_each util_files copy_util a else (None, a)) = (None, b')"
    "le_fs st b' t"
    by (rule move_assets_stages)
  show "read_bytes t (if is_dir s1 [''src'', ''components'', c]
                        then [''src'', ''components'', c, c] else [''src'', ''components'', c]) = Some b"
    if "c \<in> set aframe_components" "read_bytes s1 [''Campus-Tour-NYUAD-main'', c] = Some b"
    by (rule component_copied[OF st ab(1) that(1) s that(2) ab(4)])
  show "read_bytes t (if lookup s1 [''src'', ''utils'', c] = Some Dir
                        then [''src'', ''utils'', c, c] else [''src'', ''utils'', c]) = Some b"
    if c: "c \<in> set util_files" and r: "read_bytes s1 [''webxr-samples-main'', ''js'', c] = Some b"
      and d: "is_dir s1 [''src'', ''utils'']"
  proof -
    let ?src = "[''webxr-samples-main'', ''js'', c]" and ?dst = "[''src'', ''utils'', c]"
    have p: "protected ?src" by (simp add: protected_def old_dirs_def)
    have ra: "read_bytes a ?src = Some b" using le_fs_read_protected[OF ab(3) p] r by simp
    then have "parent_error a ?src = None" by (simp add: read_bytes_iff)
    from parent_error_is_dir[OF _ this] have "is_dir a webxr_utils" by (simp add: webxr_utils_def)
    then have "path_exists a webxr_utils" by (simp add: is_dir_iff path_exists_iff)
    with ab(5) have loop: "for_each util_files copy_util a = (None, b')" by simp
    have pe: "parent_error u ?dst = None" if "le_fs st s1 u" for u
      using is_dir_parent_error[of ?dst u] le_fs_is_dir[OF that d] by simp
    have 1: "is_dir a ?dst \<longleftrightarrow> lookup a ?dst = Some Dir"
      using pe[OF ab(3)] by (simp add: is_dir_iff)
    have 2: "is_dir s1 ?dst \<longleftrightarrow> lookup s1 ?dst = Some Dir"
      using pe[OF le_fs_refl] by (simp add: is_dir_iff)
    have kk: "keeps ?dst (for_each aframe_components copy_component)"
      by (rule keeps_for_each) (rule keeps_copy_component, simp_all)
    have 3: "lookup a ?dst = lookup s1 ?dst" using keepsD[OF kk ab(1)] .
    from util_copied[OF st loop c ab(2) ra ab(6)] 1 2 3 show ?thesis by simp
  qed
qed

lemma copy_component_absent:
  "\<not> path_exists u [''Campus-Tour-NYUAD-main'', c] \<Longrightarrow> copy_component c u = (None, u)"
  by (simp add: copy_component_def)

lemma copy_util_absent:
  "\<not> path_exists u [''webxr-samples-main'', ''js'', c] \<Longrightarrow> copy_util c u = (None, u)"
  by (simp add: copy_util_def webxr_utils_def)

lemma component_skipped:
  assumes st: "statics_ok st" and s: "based s"
    and absent: "\<not> path_exists s [''Campus-Tour-NYUAD-main'', c]"
  shows "lookup (snd (for_each aframe_components copy_component s)) [''src'', ''components'', c]
       = lookup s [''src'', ''components'', c]"
proof -
  let ?src = "[''Campus-Tour-NYUAD-main'', c]" and ?dst = "[''src'', ''components'', c]"
  let ?I = "\<lambda>u. (based u \<and> le_fs st s u) \<and> lookup u ?dst = lookup s ?dst"
  have p: "protected ?src" by (simp add: protected_def old_dirs_def)
  have "?I (snd (for_each aframe_components copy_component s))"
  proof (rule for_each_inv[where I = ?I])
    show "?I s" using s by (simp add: le_fs_refl)
  next
    fix y u r u' assume I: "?I u" and b: "copy_component y u = (r, u')"
    have g: "(based u' \<and> le_fs st s u') \<and> le_fs st u u'"
      by (rule good_inv[OF good_copy_component[OF st] _ b]) (use I in simp)
    have "lookup u' ?dst = lookup u ?dst"
    proof (cases "y = c")
      case True
      have "\<not> path_exists u ?src" using absent I le_fs_path_exists[OF _ p, of st s u] by simp
      then show ?thesis using b True by (simp add: copy_component_absent)
    next
      case False
      have "keeps ?dst (copy_component y)" by (rule keeps_copy_component) (use False in simp_all)
      then show ?thesis using b by (rule keepsD)
    qed
    then show "?I u'" using g I by simp
  qed
  then show ?thesis by simp
qed

lemma util_skipped:
  assumes st: "statics_ok st" and s: "based s"
    and absent: "\<not> path_exists s [''webxr-samples-main'', ''js'', c]"
  shows "lookup (snd (for_each util_files copy_util s)) [''src'', ''utils'', c]
       = lookup s [''src'', ''utils'', c]"
proof -
  let ?src = "[''webxr-samples-main'', ''js'', c]" and ?dst = "[''src'', ''utils'', c]"
  let ?I = "\<lambda>u. (based u \<and> le_fs st s u) \<and> lookup u ?dst = lookup s ?dst"
  have p: "protected ?src" by (simp add: protected_def old_dirs_def)
  have "?I (snd (for_each util_files copy_util s))"
  proof (rule for_each_inv[where I = ?I])
    show "?I s" using s by (simp add: le_fs_refl)
  next
    fix y u r u' assume I: "?I u" and b: "copy_util y u = (r, u')"
    have g: "(based u' \<and> le_fs st s u') \<and> le_fs st u u'"
      by (rule good_inv[OF good_copy_util[OF st] _ b]) (use I in simp)
    have "lookup u' ?dst = lookup u ?dst"
    proof (cases "y = c")
      case True
      have "\<not> path_exists u ?src" using absent I le_fs_path_exists[OF _ p, of st s u] by simp
      then show ?thesis using b True by (simp add: copy_util_absent)
    next
      case False
      have "keeps ?dst (copy_util y)" by (rule keeps_copy_util) (use False in simp_all)
      then show ?thesis using b by (rule keepsD)
    qed
    then show "?I u'" using g I by simp
  qed
  then show ?thesis by simp
qed

lemma move_assets_skips:
  assumes st: "statics_ok st" and s: "based s1"
  shows "\<not> path_exists s1 [''Campus-Tour-NYUAD-main'', c]
      \<Longrightarrow> lookup (snd (move_assets s1)) [''src'', ''components'', c] = lookup s1 [''src'', ''components'', c]"
    and "\<not> path_exists s1 [''webxr-samples-main'', ''js'', c]
      \<Longrightarrow> lookup (snd (move_assets s1)) [''src'', ''utils'', c] = lookup s1 [''src'', ''utils'', c]"
proof -
  let ?K = "for_each aframe_components copy_component"
  let ?U = "\<lambda>fs. if path_exists fs webxr_utils then for_each util_files copy_util fs else (None, fs)"
  have km: "keeps p move_media_files" if "prefix [''src''] p" for p
    by (rule keeps_move_media_files) (use that in \<open>auto simp: prefix_def\<close>)
  show "lookup (snd (move_assets s1)) [''src'', ''components'', c] = lookup s1 [''src'', ''components'', c]"
    if absent: "\<not> path_exists s1 [''Campus-Tour-NYUAD-main'', c]"
  proof -
    let ?dst = "[''src'', ''components'', c]"
    have "keeps ?dst (seq ?U move_media_files)"
      by (intro keeps_seq keeps_if keeps_for_each keeps_copy_util km) simp_all
    then have "lookup (snd (move_assets s1)) ?dst = lookup (snd (?K s1)) ?dst"
      unfolding move_assets_def by (rule keeps_after)
    then show ?thesis using component_skipped[OF st s absent] by simp
  qed
  show "lookup (snd (move_assets s1)) [''src'', ''utils'', c] = lookup s1 [''src'', ''utils'', c]"
    if absent: "\<not> path_exists s1 [''webxr-samples-main'', ''js'', c]"
  proof -
    let ?src = "[''webxr-samples-main'', ''js'', c]" and ?dst = "[''src'', ''utils'', c]"
    obtain r a where k: "?K s1 = (r, a)" by (cases "?K s1")
    have kk: "keeps ?dst ?K"
      by (rule keeps_for_each) (rule keeps_copy_component, simp_all)
    have a: "lookup a ?dst = lookup s1 ?dst" using keepsD[OF kk k] .
    show ?thesis
    proof (cases r)
      case (Some e)
      then have "snd (move_assets s1) = a" using k by (simp add: move_assets_def seq_def)
      with a show ?thesis by simp
    next
      case None
      have g: "(based a \<and> le_fs st s1 a) \<and> le_fs st s1 a"
        by (rule good_inv[OF good_for_each[OF good_copy_component[OF st]] _ k])
           (use s in \<open>simp add: le_fs_refl\<close>)
      have p: "protected ?src" by (simp add: protected_def old_dirs_def)
      have absa: "\<not> path_exists a ?src" using absent g le_fs_path_exists[OF _ p, of st s1 a] by simp
      have "snd (move_assets s1) = snd (seq ?U move_media_files a)"
        using k None by (simp add: move_assets_def seq_def)
      moreover have "lookup (snd (seq ?U move_media_files a)) ?dst = lookup (snd (?U a)) ?dst"
        by (rule keeps_after) (rule km, simp)
      moreover have "lookup (snd (?U a)) ?dst = lookup a ?dst"
        using util_skipped[OF st _ absa] g by simp
      ultimately show ?thesis using a by simp
    qed
  qed
qed

lemma keeps_clean_rest:
  assumes "prefix [''src''] p"
  shows "keeps p (seq clean_create_config_files
           (seq clean_create_documentation
           (seq create_index_html (\<lambda>fs. (None, snd (cleanup_old_files fs))))))"
proof -
  have 1: "keeps p create_index_html" by (simp add: keeps_def create_index_html_def)
  have 2: "keeps p (\<lambda>fs. (None, snd (cleanup_old_files fs)))"
    by (simp add: keeps_def cleanup_old_files_def)
  show ?thesis
    unfolding clean_create_config_files_def clean_create_documentation_def
    by (intro keeps_seq keeps_write_text keeps_mkdir_False 1 2)
       (use assms in \<open>auto simp: prefix_def\<close>)
qed

lemma keeps_restructure_rest:
  assumes "prefix [''src''] p"
  shows "keeps p (seq restructure_create_config_files restructure_create_documentation)"
  unfolding restructure_create_config_files_def restructure_create_documentation_def
  by (intro keeps_seq keeps_write_text) (use assms in \<open>auto simp: prefix_def\<close>)

lemma assets_skipped:
  assumes st: "statics_ok st"
    and rest: "\<And>p. prefix [''src''] p \<Longrightarrow> keeps p REST"
  shows "\<not> path_exists fs [''Campus-Tour-NYUAD-main'', c]
      \<Longrightarrow> lookup (snd (seq create_directory_structure (seq move_assets REST) fs))
            [''src'', ''components'', c] = lookup fs [''src'', ''components'', c]"
    and "\<not> path_exists fs [''webxr-samples-main'', ''js'', c]
      \<Longrightarrow> lookup (snd (seq create_directory_structure (seq move_assets REST) fs))
            [''src'', ''utils'', c] = lookup fs [''src'', ''utils'', c]"
proof -
  let ?run = "seq create_directory_structure (seq move_assets REST)"
  have main: "lookup (snd (?run fs)) dst = lookup fs dst"
    if absent: "\<not> path_exists fs src" and p: "protected src"
      and dst: "prefix [''src''] dst" "dst \<notin> set planned_directories"
      and ma: "\<And>s1. based s1 \<Longrightarrow> \<not> path_exists s1 src
                 \<Longrightarrow> lookup (snd (move_assets s1)) dst = lookup s1 dst"
    for src dst
  proof (cases "based fs")
    case False
    then obtain e where "create_directory_structure fs = (Some e, fs)"
      using unbased_create_directory_structure by blast
    then show ?thesis by (simp add: seq_def)
  next
    case True
    obtain r s1 where c: "create_directory_structure fs = (r, s1)"
      by (cases "create_directory_structure fs")
    have k: "lookup s1 dst = lookup fs dst"
      using keepsD[OF keeps_create_directory_structure[OF dst(2)] c] .
    show ?thesis
    proof (cases r)
      case (Some e)
      then show ?thesis using c k by (simp add: seq_def)
    next
      case None
      have le: "le_fs st fs s1" by (rule good_le[OF good_create_directory_structure True c])
      have b1: "based s1" by (rule le_fs_based[OF le True])
      have abs1: "\<not> path_exists s1 src" using absent le_fs_path_exists[OF le p] by simp
      have "snd (?run fs) = snd (seq move_assets REST s1)" using c None by (simp add: seq_def)
      moreover have "lookup (snd (seq move_assets REST s1)) dst = lookup (snd (move_assets s1)) dst"
        by (rule keeps_after[OF rest[OF dst(1)]])
      ultimately show ?thesis using ma[OF b1 abs1] k by simp
    qed
  qed
  have np: "[''src'', ''components'', c] \<notin> set planned_directories"
    "[''src'', ''utils'', c] \<notin> set planned_directories"
    by (simp_all add: planned_directories_def new_structure_def)
  show "lookup (snd (?run fs)) [''src'', ''components'', c] = lookup fs [''src'', ''components'', c]"
    if "\<not> path_exists fs [''Campus-Tour-NYUAD-main'', c]"
    by (rule main[OF that _ _ np(1)])
       (simp_all add: protected_def old_dirs_def move_assets_skips(1)[OF st])
  show "lookup (snd (?run fs)) [''src'', ''utils'', c] = lookup fs [''src'', ''utils'', c]"
    if "\<not> path_exists fs [''webxr-samples-main'', ''js'', c]"
    by (rule main[OF that _ _ np(2)])
       (simp_all add: protected_def old_dirs_def move_assets_skips(2)[OF st])
qed

lemma assets_after_directories:
  assumes st: "statics_ok st" and fs: "based fs"
    and c1: "create_directory_structure fs = (None, s1)"
    and run: "move_assets s1 = (None, s2)" and t: "le_fs st s2 t"
  shows "c \<in> set aframe_components \<Longrightarrow> read_bytes fs [''Campus-Tour-NYUAD-main'', c] = Some b
      \<Longrightarrow> read_bytes t (if lookup fs [''src'', ''components'', c] = Some Dir
                        then [''src'', ''components'', c, c] else [''src'', ''components'', c]) = Some b"
    and "c \<in> set util_files \<Longrightarrow> read_bytes fs [''webxr-samples-main'', ''js'', c] = Some b
      \<Longrightarrow> read_bytes t (if lookup fs [''src'', ''utils'', c] = Some Dir
                        then [''src'', ''utils'', c, c] else [''src'', ''utils'', c]) = Some b"
proof -
  have le: "le_fs st fs s1" by (rule good_le[OF good_create_directory_structure fs c1])
  have b1: "based s1" by (rule le_fs_based[OF le fs])
  have d: "is_dir s1 [''src'', ''components'']" "is_dir s1 [''src'', ''utils'']"
    by (rule planned_directories_made[OF c1 fs le_fs_refl],
        simp add: planned_directories_def new_structure_def)+
  have np: "[''src'', ''components'', c] \<notin> set planned_directories"
    "[''src'', ''utils'', c] \<notin> set planned_directories"
    by (simp_all add: planned_directories_def new_structure_def)
  note k = keepsD[OF keeps_create_directory_structure[OF np(1)] c1]
    keepsD[OF keeps_create_directory_structure[OF np(2)] c1]
  have p: "protected [''Campus-Tour-NYUAD-main'', c]" "protected [''webxr-samples-main'', ''js'', c]"
    by (simp_all add: protected_def old_dirs_def)
  note r = le_fs_read_protected[OF le p(1)] le_fs_read_protected[OF le p(2)]
  have "parent_error s1 [''src'', ''components'', c] = None"
    using is_dir_parent_error[of "[''src'', ''components'', c]" s1] d(1) by simp
  then have i: "is_dir s1 [''src'', ''components'', c] \<longleftrightarrow> lookup fs [''src'', ''components'', c] = Some Dir"
    using k(1) by (simp add: is_dir_iff)
  show "read_bytes t (if lookup fs [''src'', ''components'', c] = Some Dir
                        then [''src'', ''components'', c, c] else [''src'', ''components'', c]) = Some b"
    if "c \<in> set aframe_components" "read_bytes fs [''Campus-Tour-NYUAD-main'', c] = Some b"
    using move_assets_copies(1)[OF st b1 run t that(1), of b] that(2) r(1) i by simp
  show "read_bytes t (if lookup fs [''src'', ''utils'', c] = Some Dir
                        then [''src'', ''utils'', c, c] else [''src'', ''utils'', c]) = Some b"
    if "c \<in> set util_files" "read_bytes fs [''webxr-samples-main'', ''js'', c] = Some b"
    using move_assets_copies(2)[OF st b1 run t that(1) _ d(2), of b] that(2) r(2) k(2) by simp
qed

section \<open>The component and utility files\<close>

lemma directory_at_destination:
  "''pinchable.js'' \<in> set aframe_components
   \<and> read_bytes [([], Dir), ([''Campus-Tour-NYUAD-main''], Dir),
                 ([''Campus-Tour-NYUAD-main'', ''pinchable.js''], File ''AFRAME''),
                 ([''src''], Dir), ([''src'', ''components''], Dir),
                 ([''src'', ''components'', ''pinchable.js''], Dir)]
        [''Campus-Tour-NYUAD-main'', ''pinchable.js''] = Some ''AFRAME''
   \<and> fst (clean_run [([], Dir), ([''Campus-Tour-NYUAD-main''], Dir),
                 ([''Campus-Tour-NYUAD-main'', ''pinchable.js''], File ''AFRAME''),
                 ([''src''], Dir), ([''src'', ''components''], Dir),
                 ([''src'', ''components'', ''pinchable.js''], Dir)]) = None
   \<and> is_dir (snd (clean_run [([], Dir), ([''Campus-Tour-NYUAD-main''], Dir),
                 ([''Campus-Tour-NYUAD-main'', ''pinchable.js''], File ''AFRAME''),
                 ([''src''], Dir), ([''src'', ''components''], Dir),
                 ([''src'', ''components'', ''pinchable.js''], Dir)]))
        [''src'', ''components'', ''pinchable.js'']"
  by code_simp

text \<open>
  C1 does not hold when the destination name is taken by a directory: \<^verbatim>\<open>shutil.copy2\<close>
  then copies into that directory. With \<^verbatim>\<open>Campus-Tour-NYUAD-main/pinchable.js\<close> a regular
  file and \<^verbatim>\<open>src/components/pinchable.js\<close> a directory, the run of \<^verbatim>\<open>clean.py\<close> completes and
  \<^verbatim>\<open>src/components/pinchable.js\<close> is still that directory, not a file with the bytes of
  the source.
\<close>

theorem assets_copied_counterexample:
  "\<not> (''pinchable.js'' \<in> set aframe_components
       \<and> read_bytes [([], Dir), ([''Campus-Tour-NYUAD-main''], Dir),
                 ([''Campus-Tour-NYUAD-main'', ''pinchable.js''], File ''AFRAME''),
                 ([''src''], Dir), ([''src'', ''components''], Dir),
                 ([''src'', ''components'', ''pinchable.js''], Dir)]
            [''Campus-Tour-NYUAD-main'', ''pinchable.js''] = Some ''AFRAME''
       \<and> fst (clean_run [([], Dir), ([''Campus-Tour-NYUAD-main''], Dir),
                 ([''Campus-Tour-NYUAD-main'', ''pinchable.js''], File ''AFRAME''),
                 ([''src''], Dir), ([''src'', ''components''], Dir),
                 ([''src'', ''components'', ''pinchable.js''], Dir)]) = None
      \<longrightarrow> read_bytes (snd (clean_run [([], Dir), ([''Campus-Tour-NYUAD-main''], Dir),
                 ([''Campus-Tour-NYUAD-main'', ''pinchable.js''], File ''AFRAME''),
                 ([''src''], Dir), ([''src'', ''components''], Dir),
                 ([''src'', ''components'', ''pinchable.js''], Dir)]))
            [''src'', ''components'', ''pinchable.js''] = Some ''AFRAME'')"
  using directory_at_destination by (simp add: is_dir_iff read_bytes_iff)

text \<open>
  C1, amended. Let \<^verbatim>\<open>run\<close> be the run of either script and \<^verbatim>\<open>c\<close> a name of the component
  list (of the utility list). If \<^verbatim>\<open>c\<close> is a regular file with bytes \<^verbatim>\<open>b\<close> at its legacy source
  path and the run completes, then afterwards a file with the bytes \<^verbatim>\<open>b\<close> is at the
  destination path \<^verbatim>\<open>src/components/c\<close> (\<^verbatim>\<open>src/utils/c\<close>), unless that path held a directory
  before the run: then the file is inside that directory, under the name \<^verbatim>\<open>c\<close>. If
  nothing is at the source path, the step for \<^verbatim>\<open>c\<close> does nothing in any state (no fault,
  the run goes on), and after the run, completed or not, the destination path holds
  what it held before: no file is created there.
\<close>

theorem assets_copied:
  assumes "run = clean_run \<or> run = restructure_run"
  shows
    "(\<forall>c\<in>set aframe_components.
        (\<forall>b fs'. run fs = (None, fs') \<longrightarrow> read_bytes fs [''Campus-Tour-NYUAD-main'', c] = Some b \<longrightarrow>
            read_bytes fs' (if lookup fs [''src'', ''components'', c] = Some Dir
                            then [''src'', ''components'', c, c]
                            else [''src'', ''components'', c]) = Some b)
      \<and> (\<forall>u. \<not> path_exists u [''Campus-Tour-NYUAD-main'', c] \<longrightarrow> copy_component c u = (None, u))
      \<and> (\<not> path_exists fs [''Campus-Tour-NYUAD-main'', c] \<longrightarrow>
            lookup (snd (run fs)) [''src'', ''components'', c] = lookup fs [''src'', ''components'', c]))
   \<and> (\<forall>c\<in>set util_files.
        (\<forall>b fs'. run fs = (None, fs') \<longrightarrow> read_bytes fs [''webxr-samples-main'', ''js'', c] = Some b \<longrightarrow>
            read_bytes fs' (if lookup fs [''src'', ''utils'', c] = Some Dir
                            then [''src'', ''utils'', c, c]
                            else [''src'', ''utils'', c]) = Some b)
      \<and> (\<forall>u. \<not> path_exists u [''webxr-samples-main'', ''js'', c] \<longrightarrow> copy_util c u = (None, u))
      \<and> (\<not> path_exists fs [''webxr-samples-main'', ''js'', c] \<longrightarrow>
            lookup (snd (run fs)) [''src'', ''utils'', c] = lookup fs [''src'', ''utils'', c]))"
proof -
  have copies:
    "(c \<in> set aframe_components \<longrightarrow> read_bytes fs [''Campus-Tour-NYUAD-main'', c] = Some b \<longrightarrow>
        read_bytes fs' (if lookup fs [''src'', ''components'', c] = Some Dir
                        then [''src'', ''components'', c, c]
                        else [''src'', ''components'', c]) = Some b)
     \<and> (c \<in> set util_files \<longrightarrow> read_bytes fs [''webxr-samples-main'', ''js'', c] = Some b \<longrightarrow>
        read_bytes fs' (if lookup fs [''src'', ''utils'', c] = Some Dir
                        then [''src'', ''utils'', c, c]
                        else [''src'', ''utils'', c]) = Some b)"
    if run: "run fs = (None, fs')" for c b fs'
    using assms
  proof
    assume r: "run = clean_run"
    from run[unfolded r] obtain s1 s2 s3 where stages: "based fs"
      "create_directory_structure fs = (None, s1)" "le_fs clean_statics fs s1"
      "move_assets s1 = (None, s2)" "le_fs clean_statics s1 s2"
      "clean_create_config_files s2 = (None, s3)" "le_fs clean_statics s2 s3"
      "clean_create_documentation s3 = (None, fs')" "le_fs clean_statics s3 fs'"
      by (rule clean_run_stages)
    have le: "le_fs clean_statics s2 fs'" using stages(7,9) by (rule le_fs_trans)
    from assets_after_directories[OF statics_ok_clean stages(1,2,4) le]
    show ?thesis by blast
  next
    assume r: "run = restructure_run"
    from run[unfolded r] obtain s1 s2 s3 where stages: "based fs"
      "create_directory_structure fs = (None, s1)" "le_fs restructure_statics fs s1"
      "move_assets s1 = (None, s2)" "le_fs restructure_statics s1 s2"
      "restructure_create_config_files s2 = (None, s3)" "le_fs restructure_statics s2 s3"
      "restructure_create_documentation s3 = (None, fs')" "le_fs restructure_statics s3 fs'"
      by (rule restructure_run_stages)
    have le: "le_fs restructure_statics s2 fs'" using stages(7,9) by (rule le_fs_trans)
    from assets_after_directories[OF statics_ok_restructure stages(1,2,4) le]
    show ?thesis by blast
  qed
  have skips:
    "(\<not> path_exists fs [''Campus-Tour-NYUAD-main'', c] \<longrightarrow>
        lookup (snd (run fs)) [''src'', ''components'', c] = lookup fs [''src'', ''components'', c])
     \<and> (\<not> path_exists fs [''webxr-samples-main'', ''js'', c] \<longrightarrow>
        lookup (snd (run fs)) [''src'', ''utils'', c] = lookup fs [''src'', ''utils'', c])" for c
    using assms
  proof
    assume r: "run = clean_run"
    show ?thesis unfolding r clean_run_def
      using assets_skipped[OF statics_ok_clean keeps_clean_rest] by blast
  next
    assume r: "run = restructure_run"
    show ?thesis unfolding r restructure_run_def
      using assets_skipped[OF statics_ok_restructure keeps_restructure_rest] by blast
  qed
  show ?thesis
    using copies skips copy_component_absent copy_util_absent by blast
qed


text \<open>
  The scenario of the specification: the legacy folder holds \<^verbatim>\<open>pinchable.js\<close> and no
  \<^verbatim>\<open>menu.js\<close> (and \<^verbatim>\<open>hit-test.js\<close> but no \<^verbatim>\<open>stereo-util.js\<close>).
\<close>

theorem assets_copied_witness:
  "read_bytes (snd (clean_run 
     [([], Dir), ([''Campus-Tour-NYUAD-main''], Dir),
          ([''Campus-Tour-NYUAD-main'', ''pinchable.js''], File ''AFRAME''),
          ([''webxr-samples-main''], Dir), ([''webxr-samples-main'', ''js''], Dir),
          ([''webxr-samples-main'', ''js'', ''hit-test.js''], File ''XR'')])) [''src'', ''components'', ''pinchable.js''] = Some ''AFRAME''
   \<and> copy_component ''menu.js'' 
     [([], Dir), ([''Campus-Tour-NYUAD-main''], Dir),
          ([''Campus-Tour-NYUAD-main'', ''pinchable.js''], File ''AFRAME''),
          ([''webxr-samples-main''], Dir), ([''webxr-samples-main'', ''js''], Dir),
          ([''webxr-samples-main'', ''js'', ''hit-test.js''], File ''XR'')] = (None, 
     [([], Dir), ([''Campus-Tour-NYUAD-main''], Dir),
          ([''Campus-Tour-NYUAD-main'', ''pinchable.js''], File ''AFRAME''),
          ([''webxr-samples-main''], Dir), ([''webxr-samples-main'', ''js''], Dir),
          ([''webxr-samples-main'', ''js'', ''hit-test.js''], File ''XR'')])
   \<and> lookup (snd (clean_run 
     [([], Dir), ([''Campus-Tour-NYUAD-main''], Dir),
          ([''Campus-Tour-NYUAD-main'', ''pinchable.js''], File ''AFRAME''),
          ([''webxr-samples-main''], Dir), ([''webxr-samples-main'', ''js''], Dir),
          ([''webxr-samples-main'', ''js'', ''hit-test.js''], File ''XR'')])) [''src'', ''components'', ''menu.js''] = None
   \<and> read_bytes (snd (clean_run 
     [([], Dir), ([''Campus-Tour-NYUAD-main''], Dir),
          ([''Campus-Tour-NYUAD-main'', ''pinchable.js''], File ''AFRAME''),
          ([''webxr-samples-main''], Dir), ([''webxr-samples-main'', ''js''], Dir),
          ([''webxr-samples-main'', ''js'', ''hit-test.js''], File ''XR'')])) [''src'', ''utils'', ''hit-test.js''] = Some ''XR''
   \<and> copy_util ''stereo-util.js'' 
     [([], Dir), ([''Campus-Tour-NYUAD-main''], Dir),
          ([''Campus-Tour-NYUAD-main'', ''pinchable.js''], File ''AFRAME''),
          ([''webxr-samples-main''], Dir), ([''webxr-samples-main'', ''js''], Dir),
          ([''webxr-samples-main'', ''js'', ''hit-test.js''], File ''XR'')] = (None, 
     [([], Dir), ([''Campus-Tour-NYUAD-main''], Dir),
          ([''Campus-Tour-NYUAD-main'', ''pinchable.js''], File ''AFRAME''),
          ([''webxr-samples-main''], Dir), ([''webxr-samples-main'', ''js''], Dir),
          ([''webxr-samples-main'', ''js'', ''hit-test.js''], File ''XR'')])
   \<and> lookup (snd (clean_run 
     [([], Dir), ([''Campus-Tour-NYUAD-main''], Dir),
          ([''Campus-Tour-NYUAD-main'', ''pinchable.js''], File ''AFRAME''),
          ([''webxr-samples-main''], Dir), ([''webxr-samples-main'', ''js''], Dir),
          ([''webxr-samples-main'', ''js'', ''hit-test.js''], File ''XR'')])) [''src'', ''utils'', ''stereo-util.js''] = None"
proof -
  have f: "fst (clean_run 
     [([], Dir), ([''Campus-Tour-NYUAD-main''], Dir),
          ([''Campus-Tour-NYUAD-main'', ''pinchable.js''], File ''AFRAME''),
          ([''webxr-samples-main''], Dir), ([''webxr-samples-main'', ''js''], Dir),
          ([''webxr-samples-main'', ''js'', ''hit-test.js''], File ''XR'')]) = None" by code_simp
  have run: "clean_run 
     [([], Dir), ([''Campus-Tour-NYUAD-main''], Dir),
          ([''Campus-Tour-NYUAD-main'', ''pinchable.js''], File ''AFRAME''),
          ([''webxr-samples-main''], Dir), ([''webxr-samples-main'', ''js''], Dir),
          ([''webxr-samples-main'', ''js'', ''hit-test.js''], File ''XR'')] = (None, snd (clean_run 
     [([], Dir), ([''Campus-Tour-NYUAD-main''], Dir),
          ([''Campus-Tour-NYUAD-main'', ''pinchable.js''], File ''AFRAME''),
          ([''webxr-samples-main''], Dir), ([''webxr-samples-main'', ''js''], Dir),
          ([''webxr-samples-main'', ''js'', ''hit-test.js''], File ''XR'')]))" using f by (rule completed)
  have m: "''pinchable.js'' \<in> set aframe_components" "''menu.js'' \<in> set aframe_components"
    "''hit-test.js'' \<in> set util_files" "''stereo-util.js'' \<in> set util_files"
    by (simp_all add: aframe_components_def util_files_def)
  have r: "read_bytes 
     [([], Dir), ([''Campus-Tour-NYUAD-main''], Dir),
          ([''Campus-Tour-NYUAD-main'', ''pinchable.js''], File ''AFRAME''),
          ([''webxr-samples-main''], Dir), ([''webxr-samples-main'', ''js''], Dir),
          ([''webxr-samples-main'', ''js'', ''hit-test.js''], File ''XR'')] [''Campus-Tour-NYUAD-main'', ''pinchable.js''] = Some ''AFRAME''"
    "read_bytes 
     [([], Dir), ([''Campus-Tour-NYUAD-main''], Dir),
          ([''Campus-Tour-NYUAD-main'', ''pinchable.js''], File ''AFRAME''),
          ([''webxr-samples-main''], Dir), ([''webxr-samples-main'', ''js''], Dir),
          ([''webxr-samples-main'', ''js'', ''hit-test.js''], File ''XR'')] [''webxr-samples-main'', ''js'', ''hit-test.js''] = Some ''XR''"
    by code_simp+
  have a: "\<not> path_exists 
     [([], Dir), ([''Campus-Tour-NYUAD-main''], Dir),
          ([''Campus-Tour-NYUAD-main'', ''pinchable.js''], File ''AFRAME''),
          ([''webxr-samples-main''], Dir), ([''webxr-samples-main'', ''js''], Dir),
          ([''webxr-samples-main'', ''js'', ''hit-test.js''], File ''XR'')] [''Campus-Tour-NYUAD-main'', ''menu.js'']"
    "\<not> path_exists 
     [([], Dir), ([''Campus-Tour-NYUAD-main''], Dir),
          ([''Campus-Tour-NYUAD-main'', ''pinchable.js''], File ''AFRAME''),
          ([''webxr-samples-main''], Dir), ([''webxr-samples-main'', ''js''], Dir),
          ([''webxr-samples-main'', ''js'', ''hit-test.js''], File ''XR'')] [''webxr-samples-main'', ''js'', ''stereo-util.js'']"
    by code_simp+
  have l: "lookup 
     [([], Dir), ([''Campus-Tour-NYUAD-main''], Dir),
          ([''Campus-Tour-NYUAD-main'', ''pinchable.js''], File ''AFRAME''),
          ([''webxr-samples-main''], Dir), ([''webxr-samples-main'', ''js''], Dir),
          ([''webxr-samples-main'', ''js'', ''hit-test.js''], File ''XR'')] [''src'', ''components'', ''pinchable.js''] = None"
    "lookup 
     [([], Dir), ([''Campus-Tour-NYUAD-main''], Dir),
          ([''Campus-Tour-NYUAD-main'', ''pinchable.js''], File ''AFRAME''),
          ([''webxr-samples-main''], Dir), ([''webxr-samples-main'', ''js''], Dir),
          ([''webxr-samples-main'', ''js'', ''hit-test.js''], File ''XR'')] [''src'', ''components'', ''menu.js''] = None"
    "lookup 
     [([], Dir), ([''Campus-Tour-NYUAD-main''], Dir),
          ([''Campus-Tour-NYUAD-main'', ''pinchable.js''], File ''AFRAME''),
          ([''webxr-samples-main''], Dir), ([''webxr-samples-main'', ''js''], Dir),
          ([''webxr-samples-main'', ''js'', ''hit-test.js''], File ''XR'')] [''src'', ''utils'', ''hit-test.js''] = None"
    "lookup 
     [([], Dir), ([''Campus-Tour-NYUAD-main''], Dir),
          ([''Campus-Tour-NYUAD-main'', ''pinchable.js''], File ''AFRAME''),
          ([''webxr-samples-main''], Dir), ([''webxr-samples-main'', ''js''], Dir),
          ([''webxr-samples-main'', ''js'', ''hit-test.js''], File ''XR'')] [''src'', ''utils'', ''stereo-util.js''] = None"
    by (simp_all add: lookup_def)
  note T = assets_copied[OF disjI1[OF refl], of "[([], Dir), ([''Campus-Tour-NYUAD-main''], Dir),
          ([''Campus-Tour-NYUAD-main'', ''pinchable.js''], File ''AFRAME''),
          ([''webxr-samples-main''], Dir), ([''webxr-samples-main'', ''js''], Dir),
          ([''webxr-samples-main'', ''js'', ''hit-test.js''], File ''XR'')]"]
  note C = T[THEN conjunct1, THEN bspec] and U = T[THEN conjunct2, THEN bspec]
  note c1 = C[OF m(1), THEN conjunct1, THEN spec, THEN spec, THEN mp, THEN mp, OF run r(1)]
  note c2 = C[OF m(2), THEN conjunct2, THEN conjunct1, THEN spec, THEN mp, OF a(1)]
  note c3 = C[OF m(2), THEN conjunct2, THEN conjunct2, THEN mp, OF a(1)]
  note u1 = U[OF m(3), THEN conjunct1, THEN spec, THEN spec, THEN mp, THEN mp, OF run r(2)]
  note u2 = U[OF m(4), THEN conjunct2, THEN conjunct1, THEN spec, THEN mp, OF a(2)]
  note u3 = U[OF m(4), THEN conjunct2, THEN conjunct2, THEN mp, OF a(2)]
  have 1: "read_bytes (snd (clean_run 
     [([], Dir), ([''Campus-Tour-NYUAD-main''], Dir),
          ([''Campus-Tour-NYUAD-main'', ''pinchable.js''], File ''AFRAME''),
          ([''webxr-samples-main''], Dir), ([''webxr-samples-main'', ''js''], Dir),
          ([''webxr-samples-main'', ''js'', ''hit-test.js''], File ''XR'')])) [''src'', ''components'', ''pinchable.js''] = Some ''AFRAME''"
    using c1 unfolding l(1) by simp
  have 2: "lookup (snd (clean_run 
     [([], Dir), ([''Campus-Tour-NYUAD-main''], Dir),
          ([''Campus-Tour-NYUAD-main'', ''pinchable.js''], File ''AFRAME''),
          ([''webxr-samples-main''], Dir), ([''webxr-samples-main'', ''js''], Dir),
          ([''webxr-samples-main'', ''js'', ''hit-test.js''], File ''XR'')])) [''src'', ''components'', ''menu.js''] = None"
    using c3 unfolding l(2) .
  have 3: "read_bytes (snd (clean_run 
     [([], Dir), ([''Campus-Tour-NYUAD-main''], Dir),
          ([''Campus-Tour-NYUAD-main'', ''pinchable.js''], File ''AFRAME''),
          ([''webxr-samples-main''], Dir), ([''webxr-samples-main'', ''js''], Dir),
          ([''webxr-samples-main'', ''js'', ''hit-test.js''], File ''XR'')])) [''src'', ''utils'', ''hit-test.js''] = Some ''XR''"
    using u1 unfolding l(3) by simp
  have 4: "lookup (snd (clean_run 
     [([], Dir), ([''Campus-Tour-NYUAD-main''], Dir),
          ([''Campus-Tour-NYUAD-main'', ''pinchable.js''], File ''AFRAME''),
          ([''webxr-samples-main''], Dir), ([''webxr-samples-main'', ''js''], Dir),
          ([''webxr-samples-main'', ''js'', ''hit-test.js''], File ''XR'')])) [''src'', ''utils'', ''stereo-util.js''] = None"
    using u3 unfolding l(4) .
  show ?thesis by (intro conjI 1 2 3 4 c2 u2)
qed

section \<open>Overwriting what is already there\<close>

lemma completed_run_copies:
  assumes "clean_run fs = (None, fs') \<or> restructure_run fs = (None, fs')"
  shows "c \<in> set aframe_components \<Longrightarrow> read_bytes fs [''Campus-Tour-NYUAD-main'', c] = Some b
      \<Longrightarrow> read_bytes fs' (if lookup fs [''src'', ''components'', c] = Some Dir
                         then [''src'', ''components'', c, c] else [''src'', ''components'', c]) = Some b"
    and "c \<in> set util_files \<Longrightarrow> read_bytes fs [''webxr-samples-main'', ''js'', c] = Some b
      \<Longrightarrow> read_bytes fs' (if lookup fs [''src'', ''utils'', c] = Some Dir
                         then [''src'', ''utils'', c, c] else [''src'', ''utils'', c]) = Some b"
proof -
  have "\<exists>st s1 s2. statics_ok st \<and> based fs \<and> create_directory_structure fs = (None, s1)
      \<and> move_assets s1 = (None, s2) \<and> le_fs st s2 fs'"
    using assms
  proof
    assume "clean_run fs = (None, fs')"
    then obtain s1 s2 s3 where stages: "based fs"
      "create_directory_structure fs = (None, s1)" "le_fs clean_statics fs s1"
      "move_assets s1 = (None, s2)" "le_fs clean_statics s1 s2"
      "clean_create_config_files s2 = (None, s3)" "le_fs clean_statics s2 s3"
      "clean_create_documentation s3 = (None, fs')" "le_fs clean_statics s3 fs'"
      by (rule clean_run_stages)
    have "le_fs clean_statics s2 fs'" using stages(7,9) by (rule le_fs_trans)
    with stages(1,2,4) statics_ok_clean show ?thesis by blast
  next
    assume "restructure_run fs = (None, fs')"
    then obtain s1 s2 s3 where stages: "based fs"
      "create_directory_structure fs = (None, s1)" "le_fs restructure_statics fs s1"
      "move_assets s1 = (None, s2)" "le_fs restructure_statics s1 s2"
      "restructure_create_config_files s2 = (None, s3)" "le_fs restructure_statics s2 s3"
      "restructure_create_documentation s3 = (None, fs')" "le_fs restructure_statics s3 fs'"
      by (rule restructure_run_stages)
    have "le_fs restructure_statics s2 fs'" using stages(7,9) by (rule le_fs_trans)
    with stages(1,2,4) statics_ok_restructure show ?thesis by blast
  qed
  then obtain st s1 s2 where s: "statics_ok st" "based fs"
    "create_directory_structure fs = (None, s1)" "move_assets s1 = (None, s2)" "le_fs st s2 fs'"
    by blast
  note a = assets_after_directories[OF s]
  show "read_bytes fs' (if lookup fs [''src'', ''components'', c] = Some Dir
                         then [''src'', ''components'', c, c] else [''src'', ''components'', c]) = Some b"
    if "c \<in> set aframe_components" "read_bytes fs [''Campus-Tour-NYUAD-main'', c] = Some b"
    using a(1)[OF that] .
  show "read_bytes fs' (if lookup fs [''src'', ''utils'', c] = Some Dir
                         then [''src'', ''utils'', c, c] else [''src'', ''utils'', c]) = Some b"
    if "c \<in> set util_files" "read_bytes fs [''webxr-samples-main'', ''js'', c] = Some b"
    using a(2)[OF that] .
qed

lemma file_replaced:
  assumes old: "read_bytes fs dst = Some old"
    and new: "read_bytes fs' (if lookup fs dst = Some Dir then dst' else dst) = Some b"
  shows "read_bytes fs' dst = Some b"
  using assms by (simp add: read_bytes_iff)

text \<open>
  C9. A run that completes leaves \<^verbatim>\<open>package.json\<close>, \<^verbatim>\<open>vercel.json\<close> and \<^verbatim>\<open>README.md\<close> with
  exactly the bytes of the script's own template, whatever the state before held at
  these names; and where a destination of the component or utility copy held a regular
  file before the run, with any bytes \<^verbatim>\<open>old\<close>, and the legacy source is a regular file
  with bytes \<^verbatim>\<open>b\<close>, the destination afterwards holds exactly \<^verbatim>\<open>b\<close>. Nothing of the former
  content is kept.
\<close>

theorem outputs_overwritten:
  "(clean_run fs = (None, fs') \<longrightarrow>
        read_bytes fs' [''package.json''] = Some (json_dumps package_json)
      \<and> read_bytes fs' [''vercel.json''] = Some (json_dumps clean_vercel_config)
      \<and> read_bytes fs' [''README.md''] = Some clean_readme_content)
   \<and> (restructure_run fs = (None, fs') \<longrightarrow>
        read_bytes fs' [''package.json''] = Some (json_dumps package_json)
      \<and> read_bytes fs' [''vercel.json''] = Some (json_dumps restructure_vercel_config)
      \<and> read_bytes fs' [''README.md''] = Some restructure_readme_content)
   \<and> (clean_run fs = (None, fs') \<or> restructure_run fs = (None, fs') \<longrightarrow>
        (\<forall>c\<in>set aframe_components. \<forall>old b.
            read_bytes fs [''src'', ''components'', c] = Some old \<longrightarrow>
            read_bytes fs [''Campus-Tour-NYUAD-main'', c] = Some b \<longrightarrow>
            read_bytes fs' [''src'', ''components'', c] = Some b)
      \<and> (\<forall>c\<in>set util_files. \<forall>old b.
            read_bytes fs [''src'', ''utils'', c] = Some old \<longrightarrow>
            read_bytes fs [''webxr-samples-main'', ''js'', c] = Some b \<longrightarrow>
            read_bytes fs' [''src'', ''utils'', c] = Some b))"
proof (intro conjI impI ballI allI)
  assume "clean_run fs = (None, fs')"
  from clean_run_written(1,2,4)[OF this]
  show "read_bytes fs' [''package.json''] = Some (json_dumps package_json)"
    "read_bytes fs' [''vercel.json''] = Some (json_dumps clean_vercel_config)"
    "read_bytes fs' [''README.md''] = Some clean_readme_content" .
next
  assume "restructure_run fs = (None, fs')"
  from restructure_run_written(1,2,3)[OF this]
  show "read_bytes fs' [''package.json''] = Some (json_dumps package_json)"
    "read_bytes fs' [''vercel.json''] = Some (json_dumps restructure_vercel_config)"
    "read_bytes fs' [''README.md''] = Some restructure_readme_content" .
next
  fix c old b
  assume run: "clean_run fs = (None, fs') \<or> restructure_run fs = (None, fs')"
    and c: "c \<in> set aframe_components"
    and old: "read_bytes fs [''src'', ''components'', c] = Some old"
    and new: "read_bytes fs [''Campus-Tour-NYUAD-main'', c] = Some b"
  show "read_bytes fs' [''src'', ''components'', c] = Some b"
    by (rule file_replaced[OF old completed_run_copies(1)[OF run c new]])
next
  fix c old b
  assume run: "clean_run fs = (None, fs') \<or> restructure_run fs = (None, fs')"
    and c: "c \<in> set util_files"
    and old: "read_bytes fs [''src'', ''utils'', c] = Some old"
    and new: "read_bytes fs [''webxr-samples-main'', ''js'', c] = Some b"
  show "read_bytes fs' [''src'', ''utils'', c] = Some b"
    by (rule file_replaced[OF old completed_run_copies(2)[OF run c new]])
qed


theorem outputs_overwritten_witness:
  "read_bytes 
     [([], Dir), ([''package.json''], File ''{}''), ([''vercel.json''], File ''{}''),
          ([''README.md''], File ''notes''),
          ([''Campus-Tour-NYUAD-main''], Dir),
          ([''Campus-Tour-NYUAD-main'', ''pinchable.js''], File ''new''),
          ([''webxr-samples-main''], Dir), ([''webxr-samples-main'', ''js''], Dir),
          ([''webxr-samples-main'', ''js'', ''hit-test.js''], File ''new''),
          ([''src''], Dir), ([''src'', ''components''], Dir),
          ([''src'', ''components'', ''pinchable.js''], File ''old''),
          ([''src'', ''utils''], Dir),
          ([''src'', ''utils'', ''hit-test.js''], File ''old'')] [''package.json''] = Some ''{}''
   \<and> read_bytes (snd (clean_run 
     [([], Dir), ([''package.json''], File ''{}''), ([''vercel.json''], File ''{}''),
          ([''README.md''], File ''notes''),
          ([''Campus-Tour-NYUAD-main''], Dir),
          ([''Campus-Tour-NYUAD-main'', ''pinchable.js''], File ''new''),
          ([''webxr-samples-main''], Dir), ([''webxr-samples-main'', ''js''], Dir),
          ([''webxr-samples-main'', ''js'', ''hit-test.js''], File ''new''),
          ([''src''], Dir), ([''src'', ''components''], Dir),
          ([''src'', ''components'', ''pinchable.js''], File ''old''),
          ([''src'', ''utils''], Dir),
          ([''src'', ''utils'', ''hit-test.js''], File ''old'')])) [''package.json''] = Some (json_dumps package_json)
   \<and> read_bytes (snd (clean_run 
     [([], Dir), ([''package.json''], File ''{}''), ([''vercel.json''], File ''{}''),
          ([''README.md''], File ''notes''),
          ([''Campus-Tour-NYUAD-main''], Dir),
          ([''Campus-Tour-NYUAD-main'', ''pinchable.js''], File ''new''),
          ([''webxr-samples-main''], Dir), ([''webxr-samples-main'', ''js''], Dir),
          ([''webxr-samples-main'', ''js'', ''hit-test.js''], File ''new''),
          ([''src''], Dir), ([''src'', ''components''], Dir),
          ([''src'', ''components'', ''pinchable.js''], File ''old''),
          ([''src'', ''utils''], Dir),
          ([''src'', ''utils'', ''hit-test.js''], File ''old'')])) [''vercel.json''] = Some (json_dumps clean_vercel_config)
   \<and> read_bytes (snd (clean_run 
     [([], Dir), ([''package.json''], File ''{}''), ([''vercel.json''], File ''{}''),
          ([''README.md''], File ''notes''),
          ([''Campus-Tour-NYUAD-main''], Dir),
          ([''Campus-Tour-NYUAD-main'', ''pinchable.js''], File ''new''),
          ([''webxr-samples-main''], Dir), ([''webxr-samples-main'', ''js''], Dir),
          ([''webxr-samples-main'', ''js'', ''hit-test.js''], File ''new''),
          ([''src''], Dir), ([''src'', ''components''], Dir),
          ([''src'', ''components'', ''pinchable.js''], File ''old''),
          ([''src'', ''utils''], Dir),
          ([''src'', ''utils'', ''hit-test.js''], File ''old'')])) [''README.md''] = Some clean_readme_content
   \<and> read_bytes (snd (restructure_run 
     [([], Dir), ([''package.json''], File ''{}''), ([''vercel.json''], File ''{}''),
          ([''README.md''], File ''notes''),
          ([''Campus-Tour-NYUAD-main''], Dir),
          ([''Campus-Tour-NYUAD-main'', ''pinchable.js''], File ''new''),
          ([''webxr-samples-main''], Dir), ([''webxr-samples-main'', ''js''], Dir),
          ([''webxr-samples-main'', ''js'', ''hit-test.js''], File ''new''),
          ([''src''], Dir), ([''src'', ''components''], Dir),
          ([''src'', ''components'', ''pinchable.js''], File ''old''),
          ([''src'', ''utils''], Dir),
          ([''src'', ''utils'', ''hit-test.js''], File ''old'')])) [''package.json''] = Some (json_dumps package_json)
   \<and> read_bytes (snd (restructure_run 
     [([], Dir), ([''package.json''], File ''{}''), ([''vercel.json''], File ''{}''),
          ([''README.md''], File ''notes''),
          ([''Campus-Tour-NYUAD-main''], Dir),
          ([''Campus-Tour-NYUAD-main'', ''pinchable.js''], File ''new''),
          ([''webxr-samples-main''], Dir), ([''webxr-samples-main'', ''js''], Dir),
          ([''webxr-samples-main'', ''js'', ''hit-test.js''], File ''new''),
          ([''src''], Dir), ([''src'', ''components''], Dir),
          ([''src'', ''components'', ''pinchable.js''], File ''old''),
          ([''src'', ''utils''], Dir),
          ([''src'', ''utils'', ''hit-test.js''], File ''old'')])) [''vercel.json'']
        = Some (json_dumps restructure_vercel_config)
   \<and> read_bytes (snd (restructure_run 
     [([], Dir), ([''package.json''], File ''{}''), ([''vercel.json''], File ''{}''),
          ([''README.md''], File ''notes''),
          ([''Campus-Tour-NYUAD-main''], Dir),
          ([''Campus-Tour-NYUAD-main'', ''pinchable.js''], File ''new''),
          ([''webxr-samples-main''], Dir), ([''webxr-samples-main'', ''js''], Dir),
          ([''webxr-samples-main'', ''js'', ''hit-test.js''], File ''new''),
          ([''src''], Dir), ([''src'', ''components''], Dir),
          ([''src'', ''components'', ''pinchable.js''], File ''old''),
          ([''src'', ''utils''], Dir),
          ([''src'', ''utils'', ''hit-test.js''], File ''old'')])) [''README.md''] = Some restructure_readme_content
   \<and> read_bytes 
     [([], Dir), ([''package.json''], File ''{}''), ([''vercel.json''], File ''{}''),
          ([''README.md''], File ''notes''),
          ([''Campus-Tour-NYUAD-main''], Dir),
          ([''Campus-Tour-NYUAD-main'', ''pinchable.js''], File ''new''),
          ([''webxr-samples-main''], Dir), ([''webxr-samples-main'', ''js''], Dir),
          ([''webxr-samples-main'', ''js'', ''hit-test.js''], File ''new''),
          ([''src''], Dir), ([''src'', ''components''], Dir),
          ([''src'', ''components'', ''pinchable.js''], File ''old''),
          ([''src'', ''utils''], Dir),
          ([''src'', ''utils'', ''hit-test.js''], File ''old'')] [''src'', ''components'', ''pinchable.js''] = Some ''old''
   \<and> read_bytes (snd (clean_run 
     [([], Dir), ([''package.json''], File ''{}''), ([''vercel.json''], File ''{}''),
          ([''README.md''], File ''notes''),
          ([''Campus-Tour-NYUAD-main''], Dir),
          ([''Campus-Tour-NYUAD-main'', ''pinchable.js''], File ''new''),
          ([''webxr-samples-main''], Dir), ([''webxr-samples-main'', ''js''], Dir),
          ([''webxr-samples-main'', ''js'', ''hit-test.js''], File ''new''),
          ([''src''], Dir), ([''src'', ''components''], Dir),
          ([''src'', ''components'', ''pinchable.js''], File ''old''),
          ([''src'', ''utils''], Dir),
          ([''src'', ''utils'', ''hit-test.js''], File ''old'')])) [''src'', ''components'', ''pinchable.js''] = Some ''new''
   \<and> read_bytes 
     [([], Dir), ([''package.json''], File ''{}''), ([''vercel.json''], File ''{}''),
          ([''README.md''], File ''notes''),
          ([''Campus-Tour-NYUAD-main''], Dir),
          ([''Campus-Tour-NYUAD-main'', ''pinchable.js''], File ''new''),
          ([''webxr-samples-main''], Dir), ([''webxr-samples-main'', ''js''], Dir),
          ([''webxr-samples-main'', ''js'', ''hit-test.js''], File ''new''),
          ([''src''], Dir), ([''src'', ''components''], Dir),
          ([''src'', ''components'', ''pinchable.js''], File ''old''),
          ([''src'', ''utils''], Dir),
          ([''src'', ''utils'', ''hit-test.js''], File ''old'')] [''src'', ''utils'', ''hit-test.js''] = Some ''old''
   \<and> read_bytes (snd (restructure_run 
     [([], Dir), ([''package.json''], File ''{}''), ([''vercel.json''], File ''{}''),
          ([''README.md''], File ''notes''),
          ([''Campus-Tour-NYUAD-main''], Dir),
          ([''Campus-Tour-NYUAD-main'', ''pinchable.js''], File ''new''),
          ([''webxr-samples-main''], Dir), ([''webxr-samples-main'', ''js''], Dir),
          ([''webxr-samples-main'', ''js'', ''hit-test.js''], File ''new''),
          ([''src''], Dir), ([''src'', ''components''], Dir),
          ([''src'', ''components'', ''pinchable.js''], File ''old''),
          ([''src'', ''utils''], Dir),
          ([''src'', ''utils'', ''hit-test.js''], File ''old'')])) [''src'', ''utils'', ''hit-test.js''] = Some ''new''"
proof -
  have fc: "fst (clean_run 
     [([], Dir), ([''package.json''], File ''{}''), ([''vercel.json''], File ''{}''),
          ([''README.md''], File ''notes''),
          ([''Campus-Tour-NYUAD-main''], Dir),
          ([''Campus-Tour-NYUAD-main'', ''pinchable.js''], File ''new''),
          ([''webxr-samples-main''], Dir), ([''webxr-samples-main'', ''js''], Dir),
          ([''webxr-samples-main'', ''js'', ''hit-test.js''], File ''new''),
          ([''src''], Dir), ([''src'', ''components''], Dir),
          ([''src'', ''components'', ''pinchable.js''], File ''old''),
          ([''src'', ''utils''], Dir),
          ([''src'', ''utils'', ''hit-test.js''], File ''old'')]) = None" by code_simp
  have fr: "fst (restructure_run 
     [([], Dir), ([''package.json''], File ''{}''), ([''vercel.json''], File ''{}''),
          ([''README.md''], File ''notes''),
          ([''Campus-Tour-NYUAD-main''], Dir),
          ([''Campus-Tour-NYUAD-main'', ''pinchable.js''], File ''new''),
          ([''webxr-samples-main''], Dir), ([''webxr-samples-main'', ''js''], Dir),
          ([''webxr-samples-main'', ''js'', ''hit-test.js''], File ''new''),
          ([''src''], Dir), ([''src'', ''components''], Dir),
          ([''src'', ''components'', ''pinchable.js''], File ''old''),
          ([''src'', ''utils''], Dir),
          ([''src'', ''utils'', ''hit-test.js''], File ''old'')]) = None" by code_simp
  note runc = completed[OF fc] and runr = completed[OF fr]
  have m: "''pinchable.js'' \<in> set aframe_components" "''hit-test.js'' \<in> set util_files"
    by (simp_all add: aframe_components_def util_files_def)
  have old: "read_bytes 
     [([], Dir), ([''package.json''], File ''{}''), ([''vercel.json''], File ''{}''),
          ([''README.md''], File ''notes''),
          ([''Campus-Tour-NYUAD-main''], Dir),
          ([''Campus-Tour-NYUAD-main'', ''pinchable.js''], File ''new''),
          ([''webxr-samples-main''], Dir), ([''webxr-samples-main'', ''js''], Dir),
          ([''webxr-samples-main'', ''js'', ''hit-test.js''], File ''new''),
          ([''src''], Dir), ([''src'', ''components''], Dir),
          ([''src'', ''components'', ''pinchable.js''], File ''old''),
          ([''src'', ''utils''], Dir),
          ([''src'', ''utils'', ''hit-test.js''], File ''old'')] [''package.json''] = Some ''{}''"
    "read_bytes 
     [([], Dir), ([''package.json''], File ''{}''), ([''vercel.json''], File ''{}''),
          ([''README.md''], File ''notes''),
          ([''Campus-Tour-NYUAD-main''], Dir),
          ([''Campus-Tour-NYUAD-main'', ''pinchable.js''], File ''new''),
          ([''webxr-samples-main''], Dir), ([''webxr-samples-main'', ''js''], Dir),
          ([''webxr-samples-main'', ''js'', ''hit-test.js''], File ''new''),
          ([''src''], Dir), ([''src'', ''components''], Dir),
          ([''src'', ''components'', ''pinchable.js''], File ''old''),
          ([''src'', ''utils''], Dir),
          ([''src'', ''utils'', ''hit-test.js''], File ''old'')] [''src'', ''components'', ''pinchable.js''] = Some ''old''"
    "read_bytes 
     [([], Dir), ([''package.json''], File ''{}''), ([''vercel.json''], File ''{}''),
          ([''README.md''], File ''notes''),
          ([''Campus-Tour-NYUAD-main''], Dir),
          ([''Campus-Tour-NYUAD-main'', ''pinchable.js''], File ''new''),
          ([''webxr-samples-main''], Dir), ([''webxr-samples-main'', ''js''], Dir),
          ([''webxr-samples-main'', ''js'', ''hit-test.js''], File ''new''),
          ([''src''], Dir), ([''src'', ''components''], Dir),
          ([''src'', ''components'', ''pinchable.js''], File ''old''),
          ([''src'', ''utils''], Dir),
          ([''src'', ''utils'', ''hit-test.js''], File ''old'')] [''src'', ''utils'', ''hit-test.js''] = Some ''old''"
    by code_simp+
  have new: "read_bytes 
     [([], Dir), ([''package.json''], File ''{}''), ([''vercel.json''], File ''{}''),
          ([''README.md''], File ''notes''),
          ([''Campus-Tour-NYUAD-main''], Dir),
          ([''Campus-Tour-NYUAD-main'', ''pinchable.js''], File ''new''),
          ([''webxr-samples-main''], Dir), ([''webxr-samples-main'', ''js''], Dir),
          ([''webxr-samples-main'', ''js'', ''hit-test.js''], File ''new''),
          ([''src''], Dir), ([''src'', ''components''], Dir),
          ([''src'', ''components'', ''pinchable.js''], File ''old''),
          ([''src'', ''utils''], Dir),
          ([''src'', ''utils'', ''hit-test.js''], File ''old'')] [''Campus-Tour-NYUAD-main'', ''pinchable.js''] = Some ''new''"
    "read_bytes 
     [([], Dir), ([''package.json''], File ''{}''), ([''vercel.json''], File ''{}''),
          ([''README.md''], File ''notes''),
          ([''Campus-Tour-NYUAD-main''], Dir),
          ([''Campus-Tour-NYUAD-main'', ''pinchable.js''], File ''new''),
          ([''webxr-samples-main''], Dir), ([''webxr-samples-main'', ''js''], Dir),
          ([''webxr-samples-main'', ''js'', ''hit-test.js''], File ''new''),
          ([''src''], Dir), ([''src'', ''components''], Dir),
          ([''src'', ''components'', ''pinchable.js''], File ''old''),
          ([''src'', ''utils''], Dir),
          ([''src'', ''utils'', ''hit-test.js''], File ''old'')] [''webxr-samples-main'', ''js'', ''hit-test.js''] = Some ''new''"
    by code_simp+
  note C = outputs_overwritten[of "
     [([], Dir), ([''package.json''], File ''{}''), ([''vercel.json''], File ''{}''),
          ([''README.md''], File ''notes''),
          ([''Campus-Tour-NYUAD-main''], Dir),
          ([''Campus-Tour-NYUAD-main'', ''pinchable.js''], File ''new''),
          ([''webxr-samples-main''], Dir), ([''webxr-samples-main'', ''js''], Dir),
          ([''webxr-samples-main'', ''js'', ''hit-test.js''], File ''new''),
          ([''src''], Dir), ([''src'', ''components''], Dir),
          ([''src'', ''components'', ''pinchable.js''], File ''old''),
          ([''src'', ''utils''], Dir),
          ([''src'', ''utils'', ''hit-test.js''], File ''old'')]" "snd (clean_run 
     [([], Dir), ([''package.json''], File ''{}''), ([''vercel.json''], File ''{}''),
          ([''README.md''], File ''notes''),
          ([''Campus-Tour-NYUAD-main''], Dir),
          ([''Campus-Tour-NYUAD-main'', ''pinchable.js''], File ''new''),
          ([''webxr-samples-main''], Dir), ([''webxr-samples-main'', ''js''], Dir),
          ([''webxr-samples-main'', ''js'', ''hit-test.js''], File ''new''),
          ([''src''], Dir), ([''src'', ''components''], Dir),
          ([''src'', ''components'', ''pinchable.js''], File ''old''),
          ([''src'', ''utils''], Dir),
          ([''src'', ''utils'', ''hit-test.js''], File ''old'')])"]
  note R = outputs_overwritten[of "
     [([], Dir), ([''package.json''], File ''{}''), ([''vercel.json''], File ''{}''),
          ([''README.md''], File ''notes''),
          ([''Campus-Tour-NYUAD-main''], Dir),
          ([''Campus-Tour-NYUAD-main'', ''pinchable.js''], File ''new''),
          ([''webxr-samples-main''], Dir), ([''webxr-samples-main'', ''js''], Dir),
          ([''webxr-samples-main'', ''js'', ''hit-test.js''], File ''new''),
          ([''src''], Dir), ([''src'', ''components''], Dir),
          ([''src'', ''components'', ''pinchable.js''], File ''old''),
          ([''src'', ''utils''], Dir),
          ([''src'', ''utils'', ''hit-test.js''], File ''old'')]" "snd (restructure_run 
     [([], Dir), ([''package.json''], File ''{}''), ([''vercel.json''], File ''{}''),
          ([''README.md''], File ''notes''),
          ([''Campus-Tour-NYUAD-main''], Dir),
          ([''Campus-Tour-NYUAD-main'', ''pinchable.js''], File ''new''),
          ([''webxr-samples-main''], Dir), ([''webxr-samples-main'', ''js''], Dir),
          ([''webxr-samples-main'', ''js'', ''hit-test.js''], File ''new''),
          ([''src''], Dir), ([''src'', ''components''], Dir),
          ([''src'', ''components'', ''pinchable.js''], File ''old''),
          ([''src'', ''utils''], Dir),
          ([''src'', ''utils'', ''hit-test.js''], File ''old'')])"]
  note c1 = C[THEN conjunct1, THEN mp, OF runc]
  note r1 = R[THEN conjunct2, THEN conjunct1, THEN mp, OF runr]
  note c2 = C[THEN conjunct2, THEN conjunct2, THEN mp, OF disjI1[OF runc], THEN conjunct1,
      THEN bspec, OF m(1), THEN spec, THEN spec, THEN mp, THEN mp, OF old(2) new(1)]
  note r2 = R[THEN conjunct2, THEN conjunct2, THEN mp, OF disjI2[OF runr], THEN conjunct2,
      THEN bspec, OF m(2), THEN spec, THEN spec, THEN mp, THEN mp, OF old(3) new(2)]
  show ?thesis by (intro conjI old c1[THEN conjunct1] c1[THEN conjunct2, THEN conjunct1]
      c1[THEN conjunct2, THEN conjunct2] r1[THEN conjunct1] r1[THEN conjunct2, THEN conjunct1]
      r1[THEN conjunct2, THEN conjunct2] c2 r2)
qed

end
